theory Spec2Isabelle
  imports Complex_Main "HOL-Library.List_Lexorder"
begin

section \<open>Errors\<close>

text \<open>
  The source raises \<open>ValueError\<close> at five places, told apart by their message; each place
  is a constructor here. \<open>DuplicateReferenceError\<close> is "puts in dict twice" of
  \<open>_to_def_dict\<close>, \<open>MisformattedReferenceError\<close> is "incorrect format def" and
  \<open>EmptyHeadwordError\<close> is "headword empty" of \<open>_make_new_cards\<close>,
  \<open>ConflictingInputError\<close> is "Both or none of ..." of \<open>_process_tl_override_df\<close>.
  The other constructors are exceptions that the interpreter and the libraries raise:
  \<open>InvalidLiteralError\<close> is the \<open>ValueError\<close> of \<open>int()\<close> on a character that is not a
  decimal digit, \<open>IndexError\<close> is a list index out of range, \<open>KeyError\<close> a column that
  the data frame does not have, \<open>LengthMismatchError\<close> the \<open>ValueError\<close> of pandas when a
  list assigned to a column has not the length of the frame, and \<open>TypeError\<close> the error of
  adding a string to a column of floats.
\<close>

datatype error =
    DuplicateReferenceError
  | MisformattedReferenceError
  | EmptyHeadwordError
  | ConflictingInputError
  | InvalidLiteralError
  | IndexError
  | KeyError
  | LengthMismatchError
  | TypeError

section \<open>Strings\<close>

text \<open>
  A Python \<open>str\<close> is a sequence of Unicode code points, and the source indexes it by code
  point (\<open>val[1] == '\<approx>'\<close> compares one code point, U+2248), so a string is a list of code
  points. \<open>ustr\<close> reads an ASCII literal. Lists of naturals are ordered lexicographically
  (\<open>List_Lexorder\<close>), as Python orders strings.
\<close>

type_synonym pystr = "nat list"

definition ustr :: "string \<Rightarrow> pystr" where
  "ustr s = map of_char s"

text \<open>
  \<open>str.isspace\<close>, the characters that \<open>str.strip()\<close> removes: U+0009..U+000D,
  U+001C..U+0020, U+0085, U+00A0, U+1680, U+2000..U+200A, U+2028, U+2029, U+202F, U+205F,
  U+3000.
\<close>

definition isspace :: "nat \<Rightarrow> bool" where
  "isspace c = ((9 \<le> c \<and> c \<le> 13) \<or> (28 \<le> c \<and> c \<le> 32) \<or> c = 133 \<or> c = 160
     \<or> c = 5760 \<or> (8192 \<le> c \<and> c \<le> 8202) \<or> c = 8232 \<or> c = 8233 \<or> c = 8239
     \<or> c = 8287 \<or> c = 12288)"

definition strip :: "pystr \<Rightarrow> pystr" where
  "strip s = rev (dropWhile isspace (rev (dropWhile isspace s)))"

text \<open>
  \<open>str.isdigit\<close> and \<open>int\<close> on one character, from the Unicode character database of
  CPython 3.11 (Unicode 14, 788 digit characters). The decimal digits come in 66 runs
  of ten, \<open>decimal_starts\<close> being the code points of their zeros; \<open>int\<close> accepts these and
  gives the position in the run. \<open>str.isdigit\<close> also holds for the 128 characters of
  \<open>other_digits\<close> (superscripts, subscripts, circled digits and the like, given as
  ranges), on which \<open>int\<close> raises \<open>ValueError\<close>.
\<close>

definition decimal_starts :: "nat list" where
  "decimal_starts =
     [48, 1632, 1776, 1984, 2406, 2534, 2662, 2790, 2918, 3046, 3174, 3302, 3430, 3558, 3664,
      3792, 3872, 4160, 4240, 6112, 6160, 6470, 6608, 6784, 6800, 6992, 7088, 7232, 7248,
      42528, 43216, 43264, 43472, 43504, 43600, 44016, 65296, 66720, 68912, 69734, 69872,
      69942, 70096, 70384, 70736, 70864, 71248, 71360, 71472, 71904, 72016, 72784, 73040,
      73120, 92768, 92864, 93008, 120782, 120792, 120802, 120812, 120822, 123200, 123632,
      125264, 130032]"

definition decimal_value :: "nat \<Rightarrow> nat option" where
  "decimal_value c =
     map_option (\<lambda>s. c - s) (find (\<lambda>s. s \<le> c \<and> c < s + 10) decimal_starts)"

definition other_digits :: "(nat \<times> nat) list" where
  "other_digits =
     [(178, 179), (185, 185), (4969, 4977), (6618, 6618), (8304, 8304), (8308, 8313),
      (8320, 8329), (9312, 9320), (9332, 9340), (9352, 9360), (9450, 9450), (9461, 9469),
      (9471, 9471), (10102, 10110), (10112, 10120), (10122, 10130), (68160, 68163),
      (69216, 69224), (69714, 69722), (127232, 127242)]"

definition isdigit :: "nat \<Rightarrow> bool" where
  "isdigit c =
     (decimal_value c \<noteq> None \<or> list_ex (\<lambda>r. fst r \<le> c \<and> c \<le> snd r) other_digits)"

definition py_int :: "nat \<Rightarrow> error + nat" where
  "py_int c = (case decimal_value c of None \<Rightarrow> Inl InvalidLiteralError | Some n \<Rightarrow> Inr n)"

text \<open>\<open>f'{n}'\<close> for a non-negative integer: its decimal digits.\<close>

fun str_of_nat :: "nat \<Rightarrow> pystr" where
  "str_of_nat n = (if n < 10 then [48 + n] else str_of_nat (n div 10) @ [48 + n mod 10])"

declare str_of_nat.simps [simp del]

text \<open>\<open>sub in s\<close> on strings: \<open>sub\<close> occurs in \<open>s\<close> as a contiguous substring.\<close>

fun str_in :: "pystr \<Rightarrow> pystr \<Rightarrow> bool" where
  "str_in sub [] = (sub = [])"
| "str_in sub (c # s) = (take (length sub) (c # s) = sub \<or> str_in sub s)"

text \<open>\<open>sep.join(xs)\<close>.\<close>

fun join :: "pystr \<Rightarrow> pystr list \<Rightarrow> pystr" where
  "join sep [] = []"
| "join sep [x] = x"
| "join sep (x # y # xs) = x @ sep @ join sep (y # xs)"

text \<open>
  \<open>flag_set.isdisjoint(val)\<close> with \<open>flag_set = set(flags)\<close>: no character of \<open>val\<close> is a
  flag.
\<close>

definition isdisjoint :: "pystr \<Rightarrow> pystr \<Rightarrow> bool" where
  "isdisjoint flags val = (filter (\<lambda>c. c \<in> set flags) val = [])"

text \<open>\<open>val.translate(str.maketrans('', '', flags))\<close>: every flag character is deleted.\<close>

definition translate :: "pystr \<Rightarrow> pystr \<Rightarrow> pystr" where
  "translate flags val = filter (\<lambda>c. c \<notin> set flags) val"

section \<open>The positional reference parser: \<open>_to_def_dict\<close>\<close>

type_synonym def_dict = "nat \<rightharpoonup> (nat option \<times> pystr)"

text \<open>
  The body of the loop of \<open>_to_def_dict\<close> for one token: an entry \<open>N=M\<close>, \<open>N\<approx>M\<close>
  (\<open>'='\<close> is code point 61, \<open>'\<approx>'\<close> is 8776) or \<open>N:\<close> (\<open>':'\<close> is 58), or nothing.
  \<open>int(val[0])\<close> is evaluated first, in the test for the key; \<open>int(val[2])\<close> only when
  the entry is stored.
\<close>

definition to_def_dict_step :: "def_dict \<Rightarrow> pystr \<Rightarrow> error + def_dict" where
  "to_def_dict_step ret_dict v =
     (let val = strip v in
      if length val \<ge> 3 \<and> (val ! 1 = 61 \<or> val ! 1 = 8776)
         \<and> isdigit (val ! 0) \<and> isdigit (val ! 2) then
        (case py_int (val ! 0) of
           Inl e \<Rightarrow> Inl e
         | Inr n \<Rightarrow>
             if ret_dict n \<noteq> None then Inl DuplicateReferenceError
             else
               (case py_int (val ! 2) of
                  Inl e \<Rightarrow> Inl e
                | Inr m \<Rightarrow>
                    if length val \<le> 4 then Inr (ret_dict(n \<mapsto> (Some m, [])))
                    else Inr (ret_dict(n \<mapsto> (Some m, drop 4 val)))))
      else if length val \<ge> 3 \<and> isdigit (val ! 0) \<and> val ! 1 = 58 then
        (case py_int (val ! 0) of
           Inl e \<Rightarrow> Inl e
         | Inr n \<Rightarrow>
             if ret_dict n \<noteq> None then Inl DuplicateReferenceError
             else Inr (ret_dict(n \<mapsto> (None, drop 3 val))))
      else Inr ret_dict)"

fun to_def_dict_loop :: "def_dict \<Rightarrow> pystr list \<Rightarrow> error + def_dict" where
  "to_def_dict_loop ret_dict [] = Inr ret_dict"
| "to_def_dict_loop ret_dict (v # vs) =
     (case to_def_dict_step ret_dict v of
        Inl e \<Rightarrow> Inl e
      | Inr ret_dict' \<Rightarrow> to_def_dict_loop ret_dict' vs)"

definition to_def_dict :: "pystr list \<Rightarrow> error + def_dict" where
  "to_def_dict def_list = to_def_dict_loop Map.empty def_list"

section \<open>The flagged-card synthesizer: \<open>_make_new_cards\<close>\<close>

text \<open>
  A row of the primary data frame \<open>df\<close>, with the columns that
  \<open>create_tl_additional_output\<close> reads.
\<close>

record in_row =
  df_nl1 :: pystr
  df_part_of_speech :: pystr
  df_tl_notes_list :: "pystr list"
  df_tl_pronun :: pystr
  df_tl1_list :: "pystr list"
  df_tl2_list :: "pystr list"

text \<open>The value \<open>dict_val\<close> stored in \<open>tl1_flagged_dict_\<close>, a dictionary by column name.\<close>

record card =
  merge_id :: pystr
  nl1 :: pystr
  part_of_speech :: pystr
  tl_defs :: pystr
  answer_lang :: pystr
  tl1 :: pystr
  tl2 :: pystr
  tl_pronun :: pystr

text \<open>
  Lines 188 to 210: \<open>definition\<close> and \<open>answer_lang\<close> of the token at index \<open>idx\<close>, from
  the parsed notes. \<open>if def_dict[idx+1][0]:\<close> is Python truthiness: \<open>None\<close> and \<open>0\<close>
  both take the \<open>else\<close> branch. \<open>tl1_list[m - 1]\<close> raises \<open>IndexError\<close> past the end of
  the list (\<open>m - 1\<close> is not negative there, since \<open>m\<close> is not \<open>0\<close>). The result is the pair
  (\<open>definition\<close>, \<open>answer_lang\<close>); \<open>'['\<close> is code point 91, \<open>']'\<close> 93, \<open>'|'\<close> 124,
  \<open>' '\<close> 32, \<open>';'\<close> 59.
\<close>

definition resolve_definition ::
  "pystr \<Rightarrow> pystr \<Rightarrow> pystr list \<Rightarrow> pystr list \<Rightarrow> def_dict \<Rightarrow> nat \<Rightarrow> error + (pystr \<times> pystr)" where
  "resolve_definition nl1_hint tl1_hint tl1_list tl_notes_list def_dict idx =
     (case def_dict (idx + 1) of
        Some (target, text) \<Rightarrow>
          (if target \<noteq> None \<and> target \<noteq> Some 0 then
             (if the target - 1 < length tl1_list then
                Inr (strip (tl1_list ! (the target - 1)) @ [32] @ text, [91] @ tl1_hint @ [93])
              else Inl IndexError)
           else Inr (text, [91] @ nl1_hint @ [124] @ tl1_hint @ [93]))
      | None \<Rightarrow>
          (let tl_notes = join [59] tl_notes_list in
           if str_in (str_of_nat (idx + 1) @ [58]) tl_notes
              \<or> str_in (str_of_nat (idx + 1) @ [61]) tl_notes
           then Inl MisformattedReferenceError
           else Inr ([], [91] @ nl1_hint @ [93])))"

text \<open>
  Lines 179 to 221 of the loop body, for the stripped token \<open>val\<close> at index \<open>idx\<close>: the
  record \<open>dict_val\<close>, or the error raised before it is built. \<open>tl2_list[idx]\<close> is read
  under \<open>try ... except IndexError\<close>.
\<close>

definition make_dict_val ::
  "(pystr \<Rightarrow> pystr) \<Rightarrow> pystr \<Rightarrow> pystr \<Rightarrow> pystr \<Rightarrow> in_row \<Rightarrow> nat \<Rightarrow> pystr \<Rightarrow> error + card" where
  "make_dict_val str_to_wordlist_key flags nl1_hint tl1_hint row idx val =
     (let headword = str_to_wordlist_key val;
          tl2' = (if idx < length (df_tl2_list row) then strip (df_tl2_list row ! idx) else [])
      in case to_def_dict (df_tl_notes_list row) of
           Inl e \<Rightarrow> Inl e
         | Inr def_dict \<Rightarrow>
             (case resolve_definition nl1_hint tl1_hint (df_tl1_list row)
                     (df_tl_notes_list row) def_dict idx of
                Inl e \<Rightarrow> Inl e
              | Inr (definition', answer_lang') \<Rightarrow>
                  if headword = [] then Inl EmptyHeadwordError
                  else Inr \<lparr>merge_id = headword, nl1 = df_nl1 row,
                            part_of_speech = df_part_of_speech row,
                            tl_defs = definition', answer_lang = answer_lang',
                            tl1 = translate flags val, tl2 = tl2',
                            tl_pronun = df_tl_pronun row\<rparr>))"

text \<open>
  \<open>tl1_flagged_dict_\<close> is a Python dictionary: it keeps its keys in insertion order, and
  the data frame built from it has its rows in that order. It is an association list
  with distinct keys; \<open>map_of\<close> looks a key up.

  One iteration of \<open>for idx, val in enumerate(tl1_list)\<close>.
\<close>

type_synonym flagged_dict = "(pystr \<times> card) list"

definition make_new_cards_step ::
  "pystr set \<Rightarrow> (pystr \<Rightarrow> pystr) \<Rightarrow> pystr \<Rightarrow> pystr \<Rightarrow> pystr \<Rightarrow> in_row
     \<Rightarrow> flagged_dict \<Rightarrow> nat \<times> pystr \<Rightarrow> error + flagged_dict" where
  "make_new_cards_step exclude_headwords str_to_wordlist_key flags nl1_hint tl1_hint row
       tl1_flagged_dict iv =
     (let idx = fst iv; val = strip (snd iv); headword = str_to_wordlist_key val in
      if \<not> isdisjoint flags val then
        if headword \<in> exclude_headwords then Inr tl1_flagged_dict
        else
          (case make_dict_val str_to_wordlist_key flags nl1_hint tl1_hint row idx val of
             Inl e \<Rightarrow> Inl e
           | Inr dict_val \<Rightarrow>
               if map_of tl1_flagged_dict headword \<noteq> None then Inr tl1_flagged_dict
               else Inr (tl1_flagged_dict @ [(headword, dict_val)]))
      else Inr tl1_flagged_dict)"

fun make_new_cards_loop ::
  "pystr set \<Rightarrow> (pystr \<Rightarrow> pystr) \<Rightarrow> pystr \<Rightarrow> pystr \<Rightarrow> pystr \<Rightarrow> in_row
     \<Rightarrow> flagged_dict \<Rightarrow> (nat \<times> pystr) list \<Rightarrow> error + flagged_dict" where
  "make_new_cards_loop ex key flags nl1_hint tl1_hint row d [] = Inr d"
| "make_new_cards_loop ex key flags nl1_hint tl1_hint row d (iv # ivs) =
     (case make_new_cards_step ex key flags nl1_hint tl1_hint row d iv of
        Inl e \<Rightarrow> Inl e
      | Inr d' \<Rightarrow> make_new_cards_loop ex key flags nl1_hint tl1_hint row d' ivs)"

definition make_new_cards ::
  "pystr set \<Rightarrow> flagged_dict \<Rightarrow> (pystr \<Rightarrow> pystr) \<Rightarrow> pystr \<Rightarrow> pystr \<Rightarrow> pystr \<Rightarrow> in_row
     \<Rightarrow> error + flagged_dict" where
  "make_new_cards exclude_headwords tl1_flagged_dict str_to_wordlist_key flags nl1_hint
       tl1_hint row =
     make_new_cards_loop exclude_headwords str_to_wordlist_key flags nl1_hint tl1_hint row
       tl1_flagged_dict (enumerate 0 (df_tl1_list row))"

section \<open>The flag classifier: \<open>_add_unflagged_headword_to_set\<close>\<close>

definition add_unflagged_headword_to_set ::
  "pystr list \<Rightarrow> pystr set \<Rightarrow> (pystr \<Rightarrow> pystr) \<Rightarrow> pystr \<Rightarrow> pystr set" where
  "add_unflagged_headword_to_set col_list set0 str_to_wordlist_key flags =
     fold (\<lambda>v s. let val = strip v; headword = str_to_wordlist_key val in
                  if headword \<noteq> [] \<and> isdisjoint flags val then insert headword s else s)
       col_list set0"

text \<open>
  The first lines of \<open>create_tl_additional_output\<close> (476 to 493): the set
  \<open>tl1_not_flagged_set\<close> is filled from every row of \<open>df\<close>, then \<open>_make_new_cards\<close> runs
  on every row in order, on one dictionary; an exception ends the run.
\<close>

definition tl1_not_flagged_set :: "(pystr \<Rightarrow> pystr) \<Rightarrow> pystr \<Rightarrow> in_row list \<Rightarrow> pystr set" where
  "tl1_not_flagged_set str_to_wordlist_key flags df =
     fold (\<lambda>row s. add_unflagged_headword_to_set (df_tl1_list row) s str_to_wordlist_key flags)
       df {}"

fun make_new_cards_rows ::
  "pystr set \<Rightarrow> (pystr \<Rightarrow> pystr) \<Rightarrow> pystr \<Rightarrow> pystr \<Rightarrow> pystr \<Rightarrow> flagged_dict
     \<Rightarrow> in_row list \<Rightarrow> error + flagged_dict" where
  "make_new_cards_rows ex key flags nl1_hint tl1_hint d [] = Inr d"
| "make_new_cards_rows ex key flags nl1_hint tl1_hint d (row # rows) =
     (case make_new_cards ex d key flags nl1_hint tl1_hint row of
        Inl e \<Rightarrow> Inl e
      | Inr d' \<Rightarrow> make_new_cards_rows ex key flags nl1_hint tl1_hint d' rows)"

definition tl1_flagged_dict ::
  "(pystr \<Rightarrow> pystr) \<Rightarrow> pystr \<Rightarrow> pystr \<Rightarrow> pystr \<Rightarrow> in_row list \<Rightarrow> error + flagged_dict" where
  "tl1_flagged_dict str_to_wordlist_key flags nl_abbr tl_abbr df =
     make_new_cards_rows (tl1_not_flagged_set str_to_wordlist_key flags df)
       str_to_wordlist_key flags nl_abbr tl_abbr [] df"

section \<open>Collaborators\<close>

text \<open>
  \<open>add.py\<close> calls functions of the package \<open>flawful\<close> that are defined outside it; they
  are parameters here, with the arguments and the parts of the result that \<open>add.py\<close> uses.
  \<open>tag_audio_and_markup\<close> updates \<open>aud_dicts\<close> and \<open>wordlists\<close> in place: it takes
  their state \<open>'s\<close>, the chapter and the one token, and returns the new state. The other
  functions are taken as pure. The arguments that are the same at every call of one run
  (\<open>str_to_audio_key\<close>, \<open>select_keys_no_audio\<close>, \<open>htag_prefix\<close>, \<open>str_to_chapter\<close>,
  \<open>drop_empty_rows=True\<close>) are part of the parameter.
\<close>

record annot =
  audio_output :: pystr
  markup_output_tl1 :: "pystr list"
  annot_chapter :: int
  annot_tags :: pystr

record hint_target_answer =
  hta_hint :: pystr
  hta_target :: pystr
  hta_answer :: pystr

record ('s, 'x) collab =
  tag_audio_and_markup :: "'s \<Rightarrow> int \<Rightarrow> pystr \<Rightarrow> annot \<times> 's"
  init_chapter :: "pystr \<Rightarrow> int \<times> pystr"
  make_hint_target_and_answer ::
    "pystr \<Rightarrow> pystr \<Rightarrow> pystr list \<Rightarrow> pystr list \<Rightarrow> pystr \<Rightarrow> pystr \<Rightarrow> hint_target_answer"
  make_prompt_and_answer_table ::
    "pystr list \<Rightarrow> pystr list \<Rightarrow> pystr list \<Rightarrow> pystr list \<Rightarrow> pystr \<times> pystr"
  braces_to_class :: "pystr \<Rightarrow> pystr \<Rightarrow> pystr"
  columns_with_prefix_to_list :: "'x \<Rightarrow> pystr \<Rightarrow> pystr list list"
  combine_answer_lists ::
    "pystr list \<Rightarrow> pystr list \<Rightarrow> pystr list \<Rightarrow> pystr \<Rightarrow> pystr \<Rightarrow> pystr list \<times> pystr list"

text \<open>
  A list comprehension that calls \<open>tag_audio_and_markup\<close> once per row, in row order;
  each call sees the state the one before it left.
\<close>

fun tag_all :: "('s, 'x) collab \<Rightarrow> 's \<Rightarrow> (int \<times> pystr) list \<Rightarrow> annot list \<times> 's" where
  "tag_all C st [] = ([], st)"
| "tag_all C st (ct # cts) =
     (let (x, st') = tag_audio_and_markup C st (fst ct) (snd ct);
          (xs, st'') = tag_all C st' cts
      in (x # xs, st''))"

section \<open>Identifiers in a data frame\<close>

text \<open>
  The column \<open>id\<close> of the override table holds "a unique number or string for each input
  row". pandas gives a column of Python ints the dtype \<open>int64\<close>, a column of floats the
  dtype \<open>float64\<close> and any other column, a column of strings among them, the dtype
  \<open>object\<close>, whose entries are the Python values themselves. The constructor of a cell
  is the dtype of its column.
\<close>

datatype pyval = PStr pystr | PInt int | PFloat real

datatype id_cell = Id_int64 int | Id_float64 real | Id_object pyval

text \<open>
  The conversion of an \<open>int64\<close> to \<open>float64\<close>: the integer rounded to 53 significant
  bits, to the nearest, ties to even. \<open>bit_length\<close> is the number of bits of a natural
  number (\<open>int.bit_length\<close>); \<open>e\<close> is the number of low bits that do not fit.
\<close>

fun bit_length :: "nat \<Rightarrow> nat" where
  "bit_length n = (if n = 0 then 0 else Suc (bit_length (n div 2)))"

declare bit_length.simps [simp del]

definition round_to_53_bits :: "nat \<Rightarrow> nat" where
  "round_to_53_bits n =
     (let e = bit_length n - 53;
          q = n div 2 ^ e;
          r = n mod 2 ^ e;
          q' = (if 2 ^ e < 2 * r \<or> (2 * r = 2 ^ e \<and> odd q) then q + 1 else q)
      in q' * 2 ^ e)"

definition float64_of_int :: "int \<Rightarrow> real" where
  "float64_of_int i =
     (if i < 0 then - real (round_to_53_bits (nat (- i))) else real (round_to_53_bits (nat i)))"

text \<open>
  The entry that \<open>np.where(in_df2, tl1_df.id, ...)\<close> takes from the column \<open>id\<close> of the
  merged frame, as a Python value. The outer join fills \<open>id\<close> with \<open>NaN\<close> in the rows
  that have no override row; an \<open>int64\<close> column cannot hold \<open>NaN\<close>, so when there is such
  a row (\<open>has_nan\<close>) the whole column is converted to \<open>float64\<close>. Columns of the dtypes
  \<open>float64\<close> and \<open>object\<close> hold \<open>NaN\<close> as they are.
\<close>

definition id_object :: "bool \<Rightarrow> id_cell \<Rightarrow> pyval" where
  "id_object has_nan c =
     (case c of
        Id_int64 i \<Rightarrow> if has_nan then PFloat (float64_of_int i) else PInt i
      | Id_float64 x \<Rightarrow> PFloat x
      | Id_object v \<Rightarrow> v)"

section \<open>Override-table preprocessing: \<open>_process_tl_override_df\<close>\<close>

text \<open>
  A row of \<open>tl_override_df\<close> with its required columns, and the data frame: its rows, the
  two optional list columns (\<open>None\<close> when the frame has no such column, else one list per
  row) and its other columns \<open>'x\<close>, among them \<open>tl3p_N\<close>, \<open>tl3t_N\<close> and \<open>tl3n_N\<close>, which
  only \<open>columns_with_prefix_to_list\<close> reads.
\<close>

record ov_row =
  ov_id :: id_cell
  ov_tl1 :: pystr
  ov_tl_headword :: pystr
  ov_tl2 :: pystr
  ov_tl_answer :: pystr
  ov_tl_answer_list :: "pystr list"
  ov_nl_answer :: pystr
  ov_nl_answer_list :: "pystr list"
  ov_notes :: pystr
  ov_pronun :: pystr
  ov_tl1_hint :: pystr
  ov_part_of_speech :: pystr
  ov_chaplist :: pystr

record 'x ov_df =
  ov_rows :: "ov_row list"
  tl3_prompts_list :: "pystr list list option"
  tl3_list :: "pystr list list option"
  ov_other :: 'x

text \<open>
  Lines 248 to 267: the columns \<open>tl3_prompts_list\<close> and \<open>tl3_list\<close> after the first
  \<open>if\<close> ... \<open>elif\<close> ... \<open>else\<close>, in this order. The three conditions are the source's.
  The column prefixes are \<open>'tl3p_'\<close>, \<open>'tl3t_'\<close> and \<open>'tl3n_'\<close>. Each of the three lists
  that \<open>columns_with_prefix_to_list\<close> returns is assigned to a column of the frame, which
  raises \<open>ValueError\<close> when the list has not one entry per row.
\<close>

definition tl3_columns ::
  "('s, 'x) collab \<Rightarrow> pystr \<Rightarrow> pystr \<Rightarrow> 'x ov_df
     \<Rightarrow> error + (pystr list list \<times> pystr list list)" where
  "tl3_columns C nl_abbr tl_abbr df =
     (if tl3_prompts_list df = None \<and> tl3_list df = None then
        (let tl3p = columns_with_prefix_to_list C (ov_other df) (ustr ''tl3p_'');
             tl3t = columns_with_prefix_to_list C (ov_other df) (ustr ''tl3t_'');
             tl3n = columns_with_prefix_to_list C (ov_other df) (ustr ''tl3n_'');
             ret_val = map (\<lambda>(p, t, n). combine_answer_lists C p t n tl_abbr nl_abbr)
                           (zip tl3p (zip tl3t tl3n))
         in if length tl3p \<noteq> length (ov_rows df) \<or> length tl3t \<noteq> length (ov_rows df)
               \<or> length tl3n \<noteq> length (ov_rows df)
            then Inl LengthMismatchError
            else Inr (map fst ret_val, map snd ret_val))
      else if tl3_prompts_list df \<noteq> None \<or> tl3_list df \<noteq> None then
        Inl ConflictingInputError
      else
        (case (tl3_prompts_list df, tl3_list df) of
           (Some ps, Some as) \<Rightarrow> Inr (map (map strip) ps, map (map strip) as)
         | _ \<Rightarrow> Inl KeyError))"

text \<open>
  A row of the data frame that \<open>_process_tl_override_df\<close> returns, after
  \<open>create_tl_additional_output\<close> has renamed \<open>audio\<close>, \<open>chapter\<close> and \<open>Tags\<close>.
\<close>

record o_row =
  o_id :: id_cell
  o_merge_id :: pystr
  o_tl_table_answer :: pystr
  o_tl_table_prompt :: pystr
  o_pronun :: pystr
  o_notes :: pystr
  o_audio :: pystr
  o_chapter :: int
  o_Tags :: pystr

text \<open>
  Lines 269 to 339 for one row, given the row's two lists and the result \<open>x\<close> of its call
  of \<open>tag_audio_and_markup\<close>.
\<close>

definition process_row ::
  "('s, 'x) collab \<Rightarrow> (pystr \<Rightarrow> pystr) \<Rightarrow> pystr option \<Rightarrow> pystr \<Rightarrow> pystr
     \<Rightarrow> ov_row \<Rightarrow> pystr list \<Rightarrow> pystr list \<Rightarrow> pystr \<Rightarrow> annot \<Rightarrow> o_row" where
  "process_row C str_to_wordlist_key braces_html_class nl_abbr tl_abbr r prompts0 answers0
       chap_tags x =
     (let tl3_prompts_list' =
            (case braces_html_class of None \<Rightarrow> prompts0
             | Some cls \<Rightarrow> map (\<lambda>val. braces_to_class C val cls) prompts0);
          tl3_list' =
            (case braces_html_class of None \<Rightarrow> answers0
             | Some cls \<Rightarrow> map (\<lambda>val. braces_to_class C val cls) answers0);
          mtp = make_hint_target_and_answer C (ov_tl_answer r) (ov_nl_answer r)
                  (ov_tl_answer_list r) (ov_nl_answer_list r) tl_abbr nl_abbr;
          target = hta_hint mtp @ ustr '': '' @ hta_target mtp;
          answer = hta_answer mtp;
          tl_for_headword = (if ov_tl_headword r \<noteq> [] then ov_tl_headword r else ov_tl1 r);
          tl1_color' = concat (markup_output_tl1 x);
          prompt0 = tl1_color' @ ustr '' ('' @ ov_part_of_speech r @ ustr '') '' @ target;
          prompt = (if ov_tl1_hint r = [] then prompt0
                    else prompt0 @ ustr '' ['' @ ov_tl1_hint r @ ustr '']'')
      in \<lparr>o_id = ov_id r,
          o_merge_id = str_to_wordlist_key tl_for_headword,
          o_tl_table_answer =
            snd (make_prompt_and_answer_table C [prompt, ov_tl2 r] [answer, []]
                   tl3_prompts_list' tl3_list'),
          o_tl_table_prompt =
            fst (make_prompt_and_answer_table C [prompt, []] [answer, []]
                   tl3_prompts_list' tl3_list'),
          o_pronun = ov_pronun r,
          o_notes = ov_notes r,
          o_audio = audio_output x,
          o_chapter = annot_chapter x,
          o_Tags = chap_tags @ [32] @ annot_tags x\<rparr>)"

text \<open>
  The whole function: the two list columns or the error, then \<open>init_chapter\<close> on every
  row's \<open>chaplist\<close>, then \<open>tag_audio_and_markup\<close> on every row's \<open>tl1\<close> with the row's
  minimum chapter, then the columns of the result. A column of a data frame has one entry
  per row, so the lists zipped here have the length of \<open>ov_rows\<close>. On a frame without
  rows the columns \<open>chap_tags\<close> and \<open>Tags\<close> are made from empty lists and are no columns
  of strings: \<open>df['chap_tags'] + ' '\<close> in line 312 raises \<open>TypeError\<close>.
\<close>

definition process_tl_override_df ::
  "('s, 'x) collab \<Rightarrow> (pystr \<Rightarrow> pystr) \<Rightarrow> pystr option \<Rightarrow> pystr \<Rightarrow> pystr \<Rightarrow> 's
     \<Rightarrow> 'x ov_df \<Rightarrow> error + (o_row list \<times> 's)" where
  "process_tl_override_df C str_to_wordlist_key braces_html_class nl_abbr tl_abbr st df =
     (case tl3_columns C nl_abbr tl_abbr df of
        Inl e \<Rightarrow> Inl e
      | Inr (prompts, answers) \<Rightarrow>
          (if ov_rows df = [] then Inl TypeError
           else
             (let res_mc = map (\<lambda>r. init_chapter C (ov_chaplist r)) (ov_rows df);
                  (res_tl1, st') =
                    tag_all C st (map (\<lambda>(r, mc). (fst mc, ov_tl1 r)) (zip (ov_rows df) res_mc))
              in Inr (map (\<lambda>(r, ps, as, mc, x).
                             process_row C str_to_wordlist_key braces_html_class nl_abbr tl_abbr
                               r ps as (snd mc) x)
                        (zip (ov_rows df) (zip prompts (zip answers (zip res_mc res_tl1)))),
                      st'))))"

section \<open>The merge: \<open>create_tl_additional_output\<close>\<close>

text \<open>
  A row of \<open>tl1_df\<close> before the merge: the columns of the card and the four columns taken
  from \<open>tag_audio_and_markup\<close> (called with \<open>chapter=999\<close>); the column \<open>chapter\<close> is
  the field \<open>tl_chapter\<close>. \<open>DataFrame.from_dict\<close> of an
  empty dictionary has no columns, so \<open>tl1_df[['tl1']]\<close> raises \<open>KeyError\<close> when no card
  was made.
\<close>

record tl1_row = card +
  tl_audio :: pystr
  tl1_color :: pystr
  tl_chapter :: int
  Tags :: pystr

definition tl1_df :: "('s, 'x) collab \<Rightarrow> 's \<Rightarrow> flagged_dict \<Rightarrow> error + (tl1_row list \<times> 's)" where
  "tl1_df C st d =
     (if d = [] then Inl KeyError
      else
        (let (res_tl1, st') = tag_all C st (map (\<lambda>hc. (999, tl1 (snd hc))) d)
         in Inr (map (\<lambda>(hc, x).
                   \<lparr>merge_id = merge_id (snd hc), nl1 = nl1 (snd hc),
                     part_of_speech = part_of_speech (snd hc), tl_defs = tl_defs (snd hc),
                     answer_lang = answer_lang (snd hc), tl1 = tl1 (snd hc),
                     tl2 = tl2 (snd hc), tl_pronun = tl_pronun (snd hc),
                     tl_audio = audio_output x, tl1_color = concat (markup_output_tl1 x),
                     tl_chapter = annot_chapter x, Tags = annot_tags x\<rparr>)
                   (zip d res_tl1), st')))"

text \<open>
  \<open>tl1_df.merge(df2[[...]], how='outer', on='merge_id', indicator='merge_ind')\<close>, the
  outer join of pandas: for every key of either frame, in the lexicographic order of the
  keys, one row for every pair of a left row and a right row with that key, and where one
  frame has no row with the key, one row for every row of the other, the missing columns
  \<open>NaN\<close>. The constructor is the indicator \<open>merge_ind\<close>.
\<close>

datatype merged = Left_only tl1_row | Right_only o_row | Both tl1_row o_row

definition rows_for_key :: "tl1_row list \<Rightarrow> o_row list \<Rightarrow> pystr \<Rightarrow> merged list" where
  "rows_for_key left right k =
     (let ls = filter (\<lambda>l. merge_id l = k) left;
          rs = filter (\<lambda>r. o_merge_id r = k) right
      in if rs = [] then map Left_only ls
         else if ls = [] then map Right_only rs
         else concat (map (\<lambda>l. map (Both l) rs) ls))"

definition merge_outer :: "tl1_row list \<Rightarrow> o_row list \<Rightarrow> merged list" where
  "merge_outer left right =
     concat (map (rows_for_key left right)
               (sort (remdups (map merge_id left @ map o_merge_id right))))"

text \<open>The columns of the merged frame; \<open>None\<close> is \<open>NaN\<close>.\<close>

fun left_of :: "merged \<Rightarrow> tl1_row option" where
  "left_of (Left_only l) = Some l"
| "left_of (Right_only r) = None"
| "left_of (Both l r) = Some l"

fun right_of :: "merged \<Rightarrow> o_row option" where
  "right_of (Left_only l) = None"
| "right_of (Right_only r) = Some r"
| "right_of (Both l r) = Some r"

fun merge_key :: "merged \<Rightarrow> pystr" where
  "merge_key (Left_only l) = merge_id l"
| "merge_key (Right_only r) = o_merge_id r"
| "merge_key (Both l r) = merge_id l"

fun merge_ind :: "merged \<Rightarrow> pystr" where
  "merge_ind (Left_only l) = ustr ''left_only''"
| "merge_ind (Right_only r) = ustr ''right_only''"
| "merge_ind (Both l r) = ustr ''both''"

text \<open>\<open>np.where(cond, a, b)\<close> on one row.\<close>

definition np_where :: "bool \<Rightarrow> 'a \<Rightarrow> 'a \<Rightarrow> 'a" where
  "np_where c a b = (if c then a else b)"

text \<open>
  A row of the data frame that is returned: the columns \<open>vars_in_output + ['Tags']\<close>.
  The column \<open>merge_id\<close> is not among them. \<open>note_id\<close> is a Python value: an identifier
  of the override table or a string. A chapter is the number that
  \<open>tag_audio_and_markup\<close> returned (999 by default), far below \<open>2^53\<close>, where
  the conversion to \<open>float64\<close> keeps the value: the column \<open>chapter\<close> holds the value.
\<close>

record out_row =
  note_id :: "pyval option"
  out_nl1 :: "pystr option"
  out_part_of_speech :: "pystr option"
  out_tl_defs :: "pystr option"
  out_answer_lang :: "pystr option"
  out_tl1 :: "pystr option"
  out_tl2 :: "pystr option"
  out_tl_pronun :: "pystr option"
  out_tl_audio :: "pystr option"
  out_tl1_color :: "pystr option"
  out_chapter :: "int option"
  tl_table_answer :: "pystr option"
  tl_table_prompt :: "pystr option"
  has_table :: pystr
  no_table :: pystr
  out_pronun :: "pystr option"
  out_notes :: "pystr option"
  out_Tags :: "pystr option"

text \<open>
  The column \<open>id\<close> of the merged frame \<open>ms\<close> holds \<open>NaN\<close> when some row has no override
  row.
\<close>

definition id_has_nan :: "merged list \<Rightarrow> bool" where
  "id_has_nan ms = list_ex (\<lambda>m. right_of m = None) ms"

text \<open>Lines 535 to 548 on one row \<open>m\<close> of the merged frame \<open>ms\<close>.\<close>

definition output_row :: "pystr \<Rightarrow> merged list \<Rightarrow> merged \<Rightarrow> out_row" where
  "output_row flag_id_prefix ms m =
     (let in_df2 = (merge_ind m \<noteq> ustr ''left_only'') in
      \<lparr>note_id = np_where in_df2 (map_option (\<lambda>r. id_object (id_has_nan ms) (o_id r)) (right_of m))
                    (Some (PStr (flag_id_prefix @ merge_key m))),
       out_nl1 = map_option nl1 (left_of m),
       out_part_of_speech = map_option part_of_speech (left_of m),
       out_tl_defs = map_option tl_defs (left_of m),
       out_answer_lang = map_option answer_lang (left_of m),
       out_tl1 = map_option tl1 (left_of m),
       out_tl2 = map_option tl2 (left_of m),
       out_tl_pronun = map_option tl_pronun (left_of m),
       out_tl_audio = np_where in_df2 (map_option o_audio (right_of m))
                        (map_option tl_audio (left_of m)),
       out_tl1_color = map_option tl1_color (left_of m),
       out_chapter = np_where in_df2 (map_option o_chapter (right_of m))
                       (map_option tl_chapter (left_of m)),
       tl_table_answer = map_option o_tl_table_answer (right_of m),
       tl_table_prompt = map_option o_tl_table_prompt (right_of m),
       has_table = np_where in_df2 (ustr ''has_table'') [],
       no_table = np_where in_df2 [] (ustr ''Y''),
       out_pronun = map_option o_pronun (right_of m),
       out_notes = map_option o_notes (right_of m),
       out_Tags = np_where in_df2 (map_option o_Tags (right_of m))
                    (map_option Tags (left_of m))\<rparr>)"

text \<open>
  The merged frame of a run (lines 476 to 533). Without an override table the column
  \<open>note_id\<close> is never made, and the selection of the output columns in line 548 raises
  \<open>KeyError\<close>.
\<close>

definition merged_frame ::
  "('s, 'x) collab \<Rightarrow> (pystr \<Rightarrow> pystr) \<Rightarrow> pystr \<Rightarrow> 'x ov_df option \<Rightarrow> pystr option
     \<Rightarrow> pystr \<Rightarrow> pystr \<Rightarrow> 's \<Rightarrow> in_row list \<Rightarrow> error + (merged list \<times> 's)" where
  "merged_frame C str_to_wordlist_key flags tl_override_df braces_html_class nl_abbr tl_abbr
       st df =
     (case tl1_flagged_dict str_to_wordlist_key flags nl_abbr tl_abbr df of
        Inl e \<Rightarrow> Inl e
      | Inr d \<Rightarrow>
          (case tl1_df C st d of
             Inl e \<Rightarrow> Inl e
           | Inr (left, st1) \<Rightarrow>
               (case tl_override_df of
                  None \<Rightarrow> Inl KeyError
                | Some odf \<Rightarrow>
                    (case process_tl_override_df C str_to_wordlist_key braces_html_class
                            nl_abbr tl_abbr st1 odf of
                       Inl e \<Rightarrow> Inl e
                     | Inr (df2, st2) \<Rightarrow> Inr (merge_outer left df2, st2)))))"

definition create_tl_additional_output ::
  "('s, 'x) collab \<Rightarrow> (pystr \<Rightarrow> pystr) \<Rightarrow> pystr \<Rightarrow> 'x ov_df option \<Rightarrow> pystr option
     \<Rightarrow> pystr \<Rightarrow> pystr \<Rightarrow> pystr \<Rightarrow> 's \<Rightarrow> in_row list \<Rightarrow> error + (out_row list \<times> 's)" where
  "create_tl_additional_output C str_to_wordlist_key flags tl_override_df braces_html_class
       nl_abbr tl_abbr flag_id_prefix st df =
     (case merged_frame C str_to_wordlist_key flags tl_override_df braces_html_class
             nl_abbr tl_abbr st df of
        Inl e \<Rightarrow> Inl e
      | Inr (ms, st') \<Rightarrow> Inr (map (output_row flag_id_prefix ms) ms, st'))"

section \<open>Synthesis attempts in processing order\<close>

text \<open>
  The statement of first-writer-wins speaks of the tokens for which a card is attempted,
  in the order in which they are processed. \<open>attempts\<close> lists, row after row and token
  after token, the flagged tokens whose headword is not excluded, each with its headword
  and the record made for it or the error raised on the way; it does not look at the
  dictionary. \<open>collect\<close> is the outcome of running them in order: the first error, or all
  the records.
\<close>

definition attempts_of_row ::
  "pystr set \<Rightarrow> (pystr \<Rightarrow> pystr) \<Rightarrow> pystr \<Rightarrow> pystr \<Rightarrow> pystr \<Rightarrow> in_row
     \<Rightarrow> (error + pystr \<times> card) list" where
  "attempts_of_row ex key flags nl1_hint tl1_hint row =
     map (\<lambda>iv. case make_dict_val key flags nl1_hint tl1_hint row (fst iv) (strip (snd iv)) of
                 Inl e \<Rightarrow> Inl e
               | Inr c \<Rightarrow> Inr (key (strip (snd iv)), c))
       (filter (\<lambda>iv. \<not> isdisjoint flags (strip (snd iv)) \<and> key (strip (snd iv)) \<notin> ex)
          (enumerate 0 (df_tl1_list row)))"

definition attempts ::
  "pystr set \<Rightarrow> (pystr \<Rightarrow> pystr) \<Rightarrow> pystr \<Rightarrow> pystr \<Rightarrow> pystr \<Rightarrow> in_row list
     \<Rightarrow> (error + pystr \<times> card) list" where
  "attempts ex key flags nl1_hint tl1_hint rows =
     concat (map (attempts_of_row ex key flags nl1_hint tl1_hint) rows)"

fun collect :: "(error + 'a) list \<Rightarrow> error + 'a list" where
  "collect [] = Inr []"
| "collect (Inl e # xs) = Inl e"
| "collect (Inr x # xs) = (case collect xs of Inl e \<Rightarrow> Inl e | Inr ys \<Rightarrow> Inr (x # ys))"

section \<open>Example inputs\<close>

text \<open>
  The inputs at which the theorems below are instantiated. The flags are \<open>'\<degree>'\<close>
  (U+00B0, 176) and the dagger (U+2020, 8224), as in \<open>example1.py\<close>; the headword of a
  token is the token without flags, trimmed.
\<close>

definition ex_flags :: pystr where
  "ex_flags = [176, 8224]"

definition ex_key :: "pystr \<Rightarrow> pystr" where
  "ex_key s = strip (translate ex_flags s)"

definition ex_row :: "pystr list \<Rightarrow> pystr list \<Rightarrow> in_row" where
  "ex_row tl1s tl_notes =
     \<lparr>df_nl1 = ustr ''house'', df_part_of_speech = ustr ''N'', df_tl_notes_list = tl_notes,
      df_tl_pronun = [], df_tl1_list = tl1s, df_tl2_list = [ustr ''H2'']\<rparr>"

text \<open>
  Collaborators for the examples: the state counts the calls of
  \<open>tag_audio_and_markup\<close>, the audio reference tells the call for a flagged card
  (\<open>chapter=999\<close>) from the call for an override row, and the other columns of the
  override table are the three lists that \<open>columns_with_prefix_to_list\<close> returns. An
  override row has an identifier and a word; \<open>sid\<close> is an identifier that is a string.
\<close>

definition ex_collab :: "(nat, pystr list list) collab" where
  "ex_collab =
     \<lparr>tag_audio_and_markup = (\<lambda>st ch tok.
         (\<lparr>audio_output = (if ch = 999 then ustr ''flagged:'' else ustr ''override:'') @ tok,
           markup_output_tl1 = [tok],
           annot_chapter = ch, annot_tags = ustr ''t:'' @ tok\<rparr>, Suc st)),
      init_chapter = (\<lambda>s. (int (length s), ustr ''c'')),
      make_hint_target_and_answer = (\<lambda>a1 a2 l1 l2 h1 h2.
         \<lparr>hta_hint = h1, hta_target = a1, hta_answer = a2\<rparr>),
      make_prompt_and_answer_table = (\<lambda>ps as eps eas. (concat ps, concat as)),
      braces_to_class = (\<lambda>val cls. val),
      columns_with_prefix_to_list = (\<lambda>x prefix. x),
      combine_answer_lists = (\<lambda>p t n h1 h2. (p, t @ n))\<rparr>"

definition sid :: "string \<Rightarrow> id_cell" where
  "sid s = Id_object (PStr (ustr s))"

definition ex_ov_row :: "id_cell \<Rightarrow> pystr \<Rightarrow> ov_row" where
  "ex_ov_row i w =
     \<lparr>ov_id = i, ov_tl1 = w, ov_tl_headword = [], ov_tl2 = [], ov_tl_answer = ustr ''ta'',
      ov_tl_answer_list = [ustr ''ta''], ov_nl_answer = ustr ''na'',
      ov_nl_answer_list = [ustr ''na''], ov_notes = ustr ''note'', ov_pronun = [],
      ov_tl1_hint = [], ov_part_of_speech = ustr ''N'', ov_chaplist = ustr ''3''\<rparr>"

definition ex_ov_df :: "ov_row list \<Rightarrow> pystr list list ov_df" where
  "ex_ov_df rs =
     \<lparr>ov_rows = rs, tl3_prompts_list = None, tl3_list = None, ov_other = map (\<lambda>r. []) rs\<rparr>"

section \<open>Evaluation of the string primitives\<close>

text \<open>
  On the code points below the first digit characters outside ASCII, \<open>str.isdigit\<close> and
  \<open>int\<close> are the ASCII tests.
\<close>

lemma decimal_value_ascii:
  "c < 1632 \<Longrightarrow> decimal_value c = (if 48 \<le> c \<and> c \<le> 57 then Some (c - 48) else None)"
  by (simp add: decimal_value_def decimal_starts_def)

lemma isdigit_ascii: "c < 178 \<Longrightarrow> isdigit c = (48 \<le> c \<and> c \<le> 57)"
  by (simp add: isdigit_def decimal_value_ascii other_digits_def)

lemma py_int_ascii:
  "c < 1632 \<Longrightarrow>
   py_int c = (if 48 \<le> c \<and> c \<le> 57 then Inr (c - 48) else Inl InvalidLiteralError)"
  by (simp add: py_int_def decimal_value_ascii)

lemma decimal_value_SomeD:
  "decimal_value c = Some n \<Longrightarrow> isdigit c \<and> py_int c = Inr n"
  by (simp add: isdigit_def py_int_def)

lemmas str_eval = ustr_def strip_def isspace_def isdigit_ascii py_int_ascii

section \<open>The parser on one more token\<close>

lemma to_def_dict_loop_append:
  "to_def_dict_loop d (xs @ ys) =
     (case to_def_dict_loop d xs of Inl e \<Rightarrow> Inl e | Inr d' \<Rightarrow> to_def_dict_loop d' ys)"
  by (induction xs arbitrary: d) (auto split: sum.splits)

lemma to_def_dict_snoc:
  "to_def_dict pre = Inr d \<Longrightarrow> to_def_dict (pre @ [v]) = to_def_dict_step d v"
  by (simp add: to_def_dict_def to_def_dict_loop_append split: sum.splits)

lemma to_def_dict_single: "to_def_dict [v] = to_def_dict_step Map.empty v"
  by (simp add: to_def_dict_def split: sum.splits)

text \<open>
  C5 (as amended). Let \<open>t\<close> be a notes token after trimming, parsed alone or after notes
  \<open>pre\<close> that parse to \<open>d\<close>. If \<open>t\<close> has length at least 3, \<open>t[1]\<close> is \<open>'='\<close> or \<open>'\<approx>'\<close>
  and \<open>t[0]\<close>, \<open>t[2]\<close> are decimal digits of values \<open>n\<close> and \<open>m\<close>, the token gives the entry
  \<open>n \<mapsto> (m, '')\<close> when \<open>len(t) \<le> 4\<close> and \<open>n \<mapsto> (m, t[4:])\<close> otherwise; if \<open>t\<close> has length
  at least 3, \<open>t[0]\<close> is a decimal digit of value \<open>n\<close> and \<open>t[1]\<close> is \<open>':'\<close>, it gives
  \<open>n \<mapsto> (None, t[3:])\<close>. The entry is added when \<open>d\<close> has no key \<open>n\<close>; when it has, the
  duplicate-reference error is raised. A token that passes neither test of the source
  (\<open>str.isdigit\<close> at the digit positions) adds nothing and raises nothing. Parsing
  \<open>"2=1 (pl.)"\<close> gives \<open>{2: (1, "(pl.)")}\<close> and parsing \<open>"3: free text"\<close> gives
  \<open>{3: (None, "free text")}\<close>.
\<close>

theorem C5_to_def_dict_shapes:
  assumes "to_def_dict pre = Inr d" and "t = strip v"
  shows "(3 \<le> length t \<and> (t ! 1 = 61 \<or> t ! 1 = 8776)
            \<and> decimal_value (t ! 0) = Some n \<and> decimal_value (t ! 2) = Some m \<longrightarrow>
            to_def_dict [v] = Inr [n \<mapsto> (Some m, if length t \<le> 4 then [] else drop 4 t)]
          \<and> (d n = None \<longrightarrow>
               to_def_dict (pre @ [v]) =
                 Inr (d(n \<mapsto> (Some m, if length t \<le> 4 then [] else drop 4 t))))
          \<and> (d n \<noteq> None \<longrightarrow> to_def_dict (pre @ [v]) = Inl DuplicateReferenceError))
       \<and> (3 \<le> length t \<and> decimal_value (t ! 0) = Some n \<and> t ! 1 = 58 \<longrightarrow>
            to_def_dict [v] = Inr [n \<mapsto> (None, drop 3 t)]
          \<and> (d n = None \<longrightarrow> to_def_dict (pre @ [v]) = Inr (d(n \<mapsto> (None, drop 3 t))))
          \<and> (d n \<noteq> None \<longrightarrow> to_def_dict (pre @ [v]) = Inl DuplicateReferenceError))
       \<and> (\<not> (3 \<le> length t \<and> (t ! 1 = 61 \<or> t ! 1 = 8776) \<and> isdigit (t ! 0) \<and> isdigit (t ! 2))
          \<and> \<not> (3 \<le> length t \<and> isdigit (t ! 0) \<and> t ! 1 = 58) \<longrightarrow>
            to_def_dict [v] = Inr Map.empty \<and> to_def_dict (pre @ [v]) = Inr d)
       \<and> to_def_dict [ustr ''2=1 (pl.)''] = Inr [2 \<mapsto> (Some 1, ustr ''(pl.)'')]
       \<and> to_def_dict [ustr ''3: free text''] = Inr [3 \<mapsto> (None, ustr ''free text'')]"
proof -
  have ex1: "to_def_dict [ustr ''2=1 (pl.)''] = Inr [2 \<mapsto> (Some 1, ustr ''(pl.)'')]"
    by (simp add: to_def_dict_single to_def_dict_step_def str_eval)
  have ex2: "to_def_dict [ustr ''3: free text''] = Inr [3 \<mapsto> (None, ustr ''free text'')]"
    by (simp add: to_def_dict_single to_def_dict_step_def str_eval)
  have snoc: "to_def_dict (pre @ [v]) = to_def_dict_step d v"
    using assms(1) by (rule to_def_dict_snoc)
  have a: "3 \<le> length t \<and> (t ! 1 = 61 \<or> t ! 1 = 8776)
            \<and> decimal_value (t ! 0) = Some n \<and> decimal_value (t ! 2) = Some m \<longrightarrow>
            to_def_dict [v] = Inr [n \<mapsto> (Some m, if length t \<le> 4 then [] else drop 4 t)]
          \<and> (d n = None \<longrightarrow>
               to_def_dict (pre @ [v]) =
                 Inr (d(n \<mapsto> (Some m, if length t \<le> 4 then [] else drop 4 t))))
          \<and> (d n \<noteq> None \<longrightarrow> to_def_dict (pre @ [v]) = Inl DuplicateReferenceError)"
  proof
    assume h: "3 \<le> length t \<and> (t ! 1 = 61 \<or> t ! 1 = 8776)
            \<and> decimal_value (t ! 0) = Some n \<and> decimal_value (t ! 2) = Some m"
    then have d0: "isdigit (t ! 0) \<and> py_int (t ! 0) = Inr n"
      and d2: "isdigit (t ! 2) \<and> py_int (t ! 2) = Inr m"
      by (simp_all add: decimal_value_SomeD)
    show "to_def_dict [v] = Inr [n \<mapsto> (Some m, if length t \<le> 4 then [] else drop 4 t)]
          \<and> (d n = None \<longrightarrow>
               to_def_dict (pre @ [v]) =
                 Inr (d(n \<mapsto> (Some m, if length t \<le> 4 then [] else drop 4 t))))
          \<and> (d n \<noteq> None \<longrightarrow> to_def_dict (pre @ [v]) = Inl DuplicateReferenceError)"
      unfolding snoc to_def_dict_single using assms(2) h d0 d2
      by (simp add: to_def_dict_step_def Let_def)
  qed
  have b: "3 \<le> length t \<and> decimal_value (t ! 0) = Some n \<and> t ! 1 = 58 \<longrightarrow>
            to_def_dict [v] = Inr [n \<mapsto> (None, drop 3 t)]
          \<and> (d n = None \<longrightarrow> to_def_dict (pre @ [v]) = Inr (d(n \<mapsto> (None, drop 3 t))))
          \<and> (d n \<noteq> None \<longrightarrow> to_def_dict (pre @ [v]) = Inl DuplicateReferenceError)"
  proof
    assume h: "3 \<le> length t \<and> decimal_value (t ! 0) = Some n \<and> t ! 1 = 58"
    then have d0: "isdigit (t ! 0) \<and> py_int (t ! 0) = Inr n"
      by (simp add: decimal_value_SomeD)
    show "to_def_dict [v] = Inr [n \<mapsto> (None, drop 3 t)]
          \<and> (d n = None \<longrightarrow> to_def_dict (pre @ [v]) = Inr (d(n \<mapsto> (None, drop 3 t))))
          \<and> (d n \<noteq> None \<longrightarrow> to_def_dict (pre @ [v]) = Inl DuplicateReferenceError)"
      unfolding snoc to_def_dict_single using assms(2) h d0
      by (simp add: to_def_dict_step_def Let_def)
  qed
  have c: "\<not> (3 \<le> length t \<and> (t ! 1 = 61 \<or> t ! 1 = 8776) \<and> isdigit (t ! 0) \<and> isdigit (t ! 2))
          \<and> \<not> (3 \<le> length t \<and> isdigit (t ! 0) \<and> t ! 1 = 58) \<longrightarrow>
            to_def_dict [v] = Inr Map.empty \<and> to_def_dict (pre @ [v]) = Inr d"
    unfolding snoc to_def_dict_single using assms(2)
    by (auto simp add: to_def_dict_step_def Let_def)
  from a b c ex1 ex2 show ?thesis by blast
qed

theorem C5_to_def_dict_shapes_witness:
  "to_def_dict [ustr ''1: x''] = Inr [1 \<mapsto> (None, ustr ''x'')]
   \<and> to_def_dict [ustr ''1: x'', ustr '' 2=1 (pl.) ''] =
       Inr [1 \<mapsto> (None, ustr ''x''), 2 \<mapsto> (Some 1, ustr ''(pl.)'')]
   \<and> to_def_dict [ustr ''1: x'', ustr ''1=2''] = Inl DuplicateReferenceError
   \<and> to_def_dict [ustr ''1: x'', ustr ''see 2''] = Inr [1 \<mapsto> (None, ustr ''x'')]"
proof -
  have h1: "to_def_dict [ustr ''1: x''] = Inr [1 \<mapsto> (None, ustr ''x'')]"
    by (simp add: to_def_dict_single to_def_dict_step_def str_eval)
  have h2: "ustr ''2=1 (pl.)'' = strip (ustr '' 2=1 (pl.) '')"
    by (simp add: str_eval)
  have h3: "ustr ''1=2'' = strip (ustr ''1=2'')"
    by (simp add: str_eval)
  have h4: "ustr ''see 2'' = strip (ustr ''see 2'')"
    by (simp add: str_eval)
  have a: "to_def_dict [ustr ''1: x'', ustr '' 2=1 (pl.) ''] =
       Inr [1 \<mapsto> (None, ustr ''x''), 2 \<mapsto> (Some 1, ustr ''(pl.)'')]"
    using C5_to_def_dict_shapes [OF h1 h2, of 2 1]
    by (simp add: ustr_def decimal_value_ascii)
  have b: "to_def_dict [ustr ''1: x'', ustr ''1=2''] = Inl DuplicateReferenceError"
    using C5_to_def_dict_shapes [OF h1 h3, of 1 2]
    by (simp add: ustr_def decimal_value_ascii)
  have c: "to_def_dict [ustr ''1: x'', ustr ''see 2''] = Inr [1 \<mapsto> (None, ustr ''x'')]"
    using C5_to_def_dict_shapes [OF h1 h4, of 0 0]
    by (simp add: ustr_def isdigit_ascii)
  from h1 a b c show ?thesis by blast
qed

text \<open>
  C5 as stated fails at two inputs. In \<open>"\<twosuperior>: x"\<close> (code points 178, 58, 32, 120) the
  first character is a digit for \<open>str.isdigit\<close> and the second is \<open>':'\<close>, but no entry is
  added: \<open>int\<close> raises \<open>ValueError\<close> on the superscript two. In \<open>["1=2", "1=3"]\<close> the second
  token has the shape \<open>N=M\<close> with digits, but no entry is added for it: key 1 is already
  there and the duplicate-reference error is raised. A decimal digit outside ASCII is
  accepted: the Arabic-Indic digit one (code point 1633) followed by \<open>": x"\<close> gives key 1.
\<close>

theorem C5_counterexample:
  "isdigit 178
   \<and> to_def_dict [[178, 58, 32, 120]] = Inl InvalidLiteralError
   \<and> to_def_dict [[178, 61, 49]] = Inl InvalidLiteralError
   \<and> to_def_dict [ustr ''1=2'', ustr ''1=3''] = Inl DuplicateReferenceError
   \<and> to_def_dict [[1633, 58, 32, 120]] = Inr [1 \<mapsto> (None, ustr ''x'')]"
proof -
  have d: "isdigit 178" "isdigit 1633" "isdigit 49"
    by (simp_all add: isdigit_def decimal_value_def decimal_starts_def other_digits_def)
  have i: "py_int 178 = Inl InvalidLiteralError" "py_int 1633 = Inr 1"
    by (simp_all add: py_int_def decimal_value_def decimal_starts_def)
  have s: "strip [178, 58, 32, 120] = [178, 58, 32, 120]" "strip [178, 61, 49] = [178, 61, 49]"
    "strip [1633, 58, 32, 120] = [1633, 58, 32, 120]"
    by (simp_all add: strip_def isspace_def)
  have a: "to_def_dict [[178, 58, 32, 120]] = Inl InvalidLiteralError"
    by (simp add: to_def_dict_single to_def_dict_step_def s d i)
  have b: "to_def_dict [[178, 61, 49]] = Inl InvalidLiteralError"
    by (simp add: to_def_dict_single to_def_dict_step_def s d i)
  have c: "to_def_dict [ustr ''1=2'', ustr ''1=3''] = Inl DuplicateReferenceError"
    by (simp add: to_def_dict_def to_def_dict_step_def str_eval)
  have e: "to_def_dict [[1633, 58, 32, 120]] = Inr [1 \<mapsto> (None, ustr ''x'')]"
    by (simp add: to_def_dict_single to_def_dict_step_def s d i ustr_def)
  from d(1) a b c e show ?thesis by blast
qed

section \<open>Helper lemmas on the synthesizer\<close>

lemmas synth_eval =
  make_new_cards_def make_new_cards_step_def make_dict_val_def resolve_definition_def
  to_def_dict_def to_def_dict_step_def ex_row_def ex_key_def ex_flags_def translate_def
  isdisjoint_def str_eval Let_def

lemma str_in_iff: "str_in sub s \<longleftrightarrow> (\<exists>p q. s = p @ sub @ q)"
proof (induction s)
  case Nil
  then show ?case by auto
next
  case (Cons c s)
  show ?case
  proof
    assume "str_in sub (c # s)"
    then consider "take (length sub) (c # s) = sub" | "str_in sub s" by auto
    then show "\<exists>p q. c # s = p @ sub @ q"
    proof cases
      case 1
      then have "c # s = [] @ sub @ drop (length sub) (c # s)"
        by (metis append_Nil append_take_drop_id)
      then show ?thesis by blast
    next
      case 2
      then obtain p q where "s = p @ sub @ q" using Cons.IH by blast
      then have "c # s = (c # p) @ sub @ q" by simp
      then show ?thesis by blast
    qed
  next
    assume "\<exists>p q. c # s = p @ sub @ q"
    then obtain p q where pq: "c # s = p @ sub @ q" by blast
    show "str_in sub (c # s)"
    proof (cases p)
      case Nil
      then have "take (length sub) (c # s) = sub" using pq by simp
      then show ?thesis by simp
    next
      case (Cons a p')
      then have "s = p' @ sub @ q" using pq by simp
      then have "str_in sub s" using Cons.IH by blast
      then show ?thesis by simp
    qed
  qed
qed

lemma step_flagged:
  assumes "\<not> isdisjoint flags (strip v)" and "key (strip v) \<notin> ex"
  shows "make_new_cards_step ex key flags nl_hint tl_hint row d (idx, v) =
     (case make_dict_val key flags nl_hint tl_hint row idx (strip v) of
        Inl e \<Rightarrow> Inl e
      | Inr c \<Rightarrow> Inr (if map_of d (key (strip v)) \<noteq> None then d
                      else d @ [(key (strip v), c)]))"
  using assms by (simp add: make_new_cards_step_def Let_def split: sum.splits)

lemma step_not_attempted:
  assumes "isdisjoint flags (strip v) \<or> key (strip v) \<in> ex"
  shows "make_new_cards_step ex key flags nl_hint tl_hint row d (idx, v) = Inr d"
  using assms by (auto simp add: make_new_cards_step_def Let_def)

lemma make_dict_val_parsed:
  assumes "to_def_dict (df_tl_notes_list row) = Inr dd"
  shows "make_dict_val key flags nl_hint tl_hint row idx val =
     (case resolve_definition nl_hint tl_hint (df_tl1_list row) (df_tl_notes_list row) dd idx of
        Inl e \<Rightarrow> Inl e
      | Inr da \<Rightarrow>
          if key val = [] then Inl EmptyHeadwordError
          else Inr \<lparr>merge_id = key val, nl1 = df_nl1 row,
                    part_of_speech = df_part_of_speech row,
                    tl_defs = fst da, answer_lang = snd da,
                    tl1 = translate flags val,
                    tl2 = (if idx < length (df_tl2_list row) then strip (df_tl2_list row ! idx)
                           else []),
                    tl_pronun = df_tl_pronun row\<rparr>)"
  using assms by (simp add: make_dict_val_def Let_def split: sum.splits prod.splits)

text \<open>
  C7 (as amended). For a flagged token at index \<open>i\<close> whose headword is not excluded and
  not empty, in a row whose notes parse to \<open>dd\<close>: if \<open>dd\<close> has key \<open>i+1\<close> with target
  position \<open>m\<close> and \<open>1 \<le> m \<le> len(tl1_list)\<close>, the card made for the token has the
  source tag \<open>'[' + tl1_hint + ']'\<close> and the definition
  \<open>tl1_list[m-1].strip() + ' ' + free_text\<close>; if the target position is \<open>None\<close>, the source
  tag is \<open>'[' + nl1_hint + '|' + tl1_hint + ']'\<close> and the definition is the free text.
  The card is stored under the headword unless the headword already has a record. If
  \<open>m\<close> is past the end of the list, no card is made: \<open>IndexError\<close> is raised.
\<close>

theorem C7_definition_from_reference:
  assumes "\<not> isdisjoint flags (strip v)" and "key (strip v) \<notin> ex"
    and "to_def_dict (df_tl_notes_list row) = Inr dd"
    and "key (strip v) \<noteq> []"
  shows "(dd (idx + 1) = Some (Some m, free_text) \<and> 1 \<le> m \<and> m \<le> length (df_tl1_list row) \<longrightarrow>
           (\<exists>c. make_dict_val key flags nl_hint tl_hint row idx (strip v) = Inr c
              \<and> answer_lang c = [91] @ tl_hint @ [93]
              \<and> tl_defs c = strip (df_tl1_list row ! (m - 1)) @ [32] @ free_text
              \<and> make_new_cards_step ex key flags nl_hint tl_hint row d (idx, v) =
                  Inr (if map_of d (key (strip v)) \<noteq> None then d
                       else d @ [(key (strip v), c)])))
       \<and> (dd (idx + 1) = Some (None, free_text) \<longrightarrow>
           (\<exists>c. make_dict_val key flags nl_hint tl_hint row idx (strip v) = Inr c
              \<and> answer_lang c = [91] @ nl_hint @ [124] @ tl_hint @ [93]
              \<and> tl_defs c = free_text
              \<and> make_new_cards_step ex key flags nl_hint tl_hint row d (idx, v) =
                  Inr (if map_of d (key (strip v)) \<noteq> None then d
                       else d @ [(key (strip v), c)])))
       \<and> (dd (idx + 1) = Some (Some m, free_text) \<and> length (df_tl1_list row) < m \<longrightarrow>
           make_new_cards_step ex key flags nl_hint tl_hint row d (idx, v) = Inl IndexError)"
proof -
  have st: "make_new_cards_step ex key flags nl_hint tl_hint row d (idx, v) =
     (case make_dict_val key flags nl_hint tl_hint row idx (strip v) of
        Inl e \<Rightarrow> Inl e
      | Inr c \<Rightarrow> Inr (if map_of d (key (strip v)) \<noteq> None then d
                      else d @ [(key (strip v), c)]))"
    using assms(1,2) by (rule step_flagged)
  note dv = make_dict_val_parsed [where key = key and val = "strip v" and flags = flags
      and nl_hint = nl_hint and tl_hint = tl_hint and idx = idx, OF assms(3)]
  have a: "dd (idx + 1) = Some (Some m, free_text) \<and> 1 \<le> m \<and> m \<le> length (df_tl1_list row) \<longrightarrow>
           (\<exists>c. make_dict_val key flags nl_hint tl_hint row idx (strip v) = Inr c
              \<and> answer_lang c = [91] @ tl_hint @ [93]
              \<and> tl_defs c = strip (df_tl1_list row ! (m - 1)) @ [32] @ free_text
              \<and> make_new_cards_step ex key flags nl_hint tl_hint row d (idx, v) =
                  Inr (if map_of d (key (strip v)) \<noteq> None then d
                       else d @ [(key (strip v), c)]))"
    unfolding st dv using assms(4) by (auto simp: resolve_definition_def)
  have b: "dd (idx + 1) = Some (None, free_text) \<longrightarrow>
           (\<exists>c. make_dict_val key flags nl_hint tl_hint row idx (strip v) = Inr c
              \<and> answer_lang c = [91] @ nl_hint @ [124] @ tl_hint @ [93]
              \<and> tl_defs c = free_text
              \<and> make_new_cards_step ex key flags nl_hint tl_hint row d (idx, v) =
                  Inr (if map_of d (key (strip v)) \<noteq> None then d
                       else d @ [(key (strip v), c)]))"
    unfolding st dv using assms(4) by (auto simp: resolve_definition_def)
  have c: "dd (idx + 1) = Some (Some m, free_text) \<and> length (df_tl1_list row) < m \<longrightarrow>
           make_new_cards_step ex key flags nl_hint tl_hint row d (idx, v) = Inl IndexError"
    unfolding st dv by (auto simp: resolve_definition_def)
  from a b c show ?thesis by blast
qed

theorem C7_definition_from_reference_witness:
  "(\<exists>c. make_new_cards_step {} ex_key ex_flags (ustr ''N'') (ustr ''T'')
           (ex_row [ustr ''Haus'' @ [176], ustr '' Bau'' @ [176]] [ustr ''1: old'', ustr ''2=1 (alt)''])
           [] (1, ustr '' Bau'' @ [176]) = Inr [(ustr ''Bau'', c)]
        \<and> answer_lang c = ustr ''[T]''
        \<and> tl_defs c = ustr ''Haus'' @ [176] @ ustr '' (alt)'')
   \<and> (\<exists>c. make_new_cards_step {} ex_key ex_flags (ustr ''N'') (ustr ''T'')
           (ex_row [ustr ''Haus'' @ [176], ustr '' Bau'' @ [176]] [ustr ''1: old'', ustr ''2=1 (alt)''])
           [] (0, ustr ''Haus'' @ [176]) = Inr [(ustr ''Haus'', c)]
        \<and> answer_lang c = ustr ''[N|T]''
        \<and> tl_defs c = ustr ''old'')"
proof -
  let ?row = "ex_row [ustr ''Haus'' @ [176], ustr '' Bau'' @ [176]] [ustr ''1: old'', ustr ''2=1 (alt)'']"
  let ?dd = "[1 \<mapsto> (None, ustr ''old''), 2 \<mapsto> (Some 1, ustr ''(alt)'')]"
  have p: "to_def_dict (df_tl_notes_list ?row) = Inr ?dd"
    by (simp add: synth_eval)
  have f1: "\<not> isdisjoint ex_flags (strip (ustr '' Bau'' @ [176]))" by (simp add: synth_eval)
  have n1: "ex_key (strip (ustr '' Bau'' @ [176])) \<notin> {}" by simp
  have k1: "ex_key (strip (ustr '' Bau'' @ [176])) \<noteq> []" by (simp add: synth_eval)
  have f0: "\<not> isdisjoint ex_flags (strip (ustr ''Haus'' @ [176]))" by (simp add: synth_eval)
  have n0: "ex_key (strip (ustr ''Haus'' @ [176])) \<notin> {}" by simp
  have k0: "ex_key (strip (ustr ''Haus'' @ [176])) \<noteq> []" by (simp add: synth_eval)
  have a: "\<exists>c. make_new_cards_step {} ex_key ex_flags (ustr ''N'') (ustr ''T'') ?row
           [] (1, ustr '' Bau'' @ [176]) = Inr [(ustr ''Bau'', c)]
        \<and> answer_lang c = ustr ''[T]''
        \<and> tl_defs c = ustr ''Haus'' @ [176] @ ustr '' (alt)''"
    using C7_definition_from_reference [where key = ex_key and flags = ex_flags
        and v = "ustr '' Bau'' @ [176]" and ex = "{}" and idx = 1 and m = 1
        and free_text = "ustr ''(alt)''" and nl_hint = "ustr ''N''" and tl_hint = "ustr ''T''"
        and d = "[]", OF f1 n1 p k1]
    by (auto simp add: ex_row_def ex_key_def ex_flags_def translate_def str_eval)
  have b: "\<exists>c. make_new_cards_step {} ex_key ex_flags (ustr ''N'') (ustr ''T'') ?row
           [] (0, ustr ''Haus'' @ [176]) = Inr [(ustr ''Haus'', c)]
        \<and> answer_lang c = ustr ''[N|T]''
        \<and> tl_defs c = ustr ''old''"
    using C7_definition_from_reference [where key = ex_key and flags = ex_flags
        and v = "ustr ''Haus'' @ [176]" and ex = "{}" and idx = 0 and m = 1
        and free_text = "ustr ''old''" and nl_hint = "ustr ''N''" and tl_hint = "ustr ''T''"
        and d = "[]", OF f0 n0 p k0]
    by (auto simp add: ex_row_def ex_key_def ex_flags_def translate_def str_eval)
  from a b show ?thesis by blast
qed

text \<open>
  C7 as stated fails at two inputs. The notes \<open>"1=0 x"\<close> give key 1 the target position
  \<open>0\<close>, which is not \<open>None\<close>, and the card has the source tag \<open>[N|T]\<close> and the
  definition \<open>x\<close>: the test \<open>if def_dict[idx+1][0]\<close> is false for \<open>0\<close>. The notes
  \<open>"1=5 x"\<close> give the target position 5 in a list of one token, and no card is made:
  \<open>tl1_list[4]\<close> raises \<open>IndexError\<close>.
\<close>

theorem C7_counterexample:
  "to_def_dict [ustr ''1=0 x''] = Inr [1 \<mapsto> (Some 0, ustr ''x'')]
   \<and> make_new_cards {} [] ex_key ex_flags (ustr ''N'') (ustr ''T'')
        (ex_row [ustr ''Haus'' @ [176]] [ustr ''1=0 x''])
      = Inr [(ustr ''Haus'',
              \<lparr>merge_id = ustr ''Haus'', nl1 = ustr ''house'', part_of_speech = ustr ''N'',
               tl_defs = ustr ''x'', answer_lang = ustr ''[N|T]'', tl1 = ustr ''Haus'',
               tl2 = ustr ''H2'', tl_pronun = []\<rparr>)]
   \<and> to_def_dict [ustr ''1=5 x''] = Inr [1 \<mapsto> (Some 5, ustr ''x'')]
   \<and> make_new_cards {} [] ex_key ex_flags (ustr ''N'') (ustr ''T'')
        (ex_row [ustr ''Haus'' @ [176]] [ustr ''1=5 x'']) = Inl IndexError"
  by (simp add: synth_eval)

text \<open>
  C8. The claim: the conflicting-input error is raised if and only if exactly one of the
  columns \<open>tl3_prompts_list\<close> and \<open>tl3_list\<close> is present. The code: it is raised if and
  only if at least one is present; with both present the \<open>elif\<close> is taken and the \<open>else\<close>
  branch, which trims the elements, is never reached.
\<close>

theorem C8_conflicting_input_error:
  "(process_tl_override_df C key b nl_abbr tl_abbr st df = Inl ConflictingInputError)
     = (tl3_prompts_list df \<noteq> None \<or> tl3_list df \<noteq> None)"
  by (auto simp: process_tl_override_df_def tl3_columns_def Let_def split: prod.splits)

theorem C8_conflicting_input_error_witness:
  "process_tl_override_df ex_collab ex_key None (ustr ''N'') (ustr ''T'') 0
     ((ex_ov_df [ex_ov_row (sid ''1'') (ustr ''Haus'')])
        \<lparr>tl3_prompts_list := Some [[ustr ''p '']], tl3_list := Some [[ustr ''a '']]\<rparr>)
   = Inl ConflictingInputError"
  using C8_conflicting_input_error [of ex_collab ex_key None "ustr ''N''" "ustr ''T''" 0
     "(ex_ov_df [ex_ov_row (sid ''1'') (ustr ''Haus'')])
        \<lparr>tl3_prompts_list := Some [[ustr ''p '']], tl3_list := Some [[ustr ''a '']]\<rparr>"]
  by simp

text \<open>
  C9. For a flagged token at index \<open>i\<close> whose headword is not excluded, in a row whose
  notes parse to a mapping without key \<open>i+1\<close>: processing the token raises the
  misformatted-reference error exactly when the notes, joined by \<open>';'\<close>, contain
  \<open>str(i+1) + ':'\<close> or \<open>str(i+1) + '='\<close> as a substring; every card made for the token has
  the source tag \<open>'[' + nl1_hint + ']'\<close> and the empty definition; and when the step
  succeeds, that card was made and is stored under the headword unless the headword
  already has a record.
\<close>

theorem C9_missing_reference:
  assumes "\<not> isdisjoint flags (strip v)" and "key (strip v) \<notin> ex"
    and "to_def_dict (df_tl_notes_list row) = Inr dd"
    and "dd (idx + 1) = None"
  shows "(make_new_cards_step ex key flags nl_hint tl_hint row d (idx, v)
            = Inl MisformattedReferenceError)
          = (\<exists>p q. join [59] (df_tl_notes_list row) = p @ str_of_nat (idx + 1) @ [58] @ q
                  \<or> join [59] (df_tl_notes_list row) = p @ str_of_nat (idx + 1) @ [61] @ q)
       \<and> (\<forall>c. make_dict_val key flags nl_hint tl_hint row idx (strip v) = Inr c \<longrightarrow>
             answer_lang c = [91] @ nl_hint @ [93] \<and> tl_defs c = [])
       \<and> (\<forall>d'. make_new_cards_step ex key flags nl_hint tl_hint row d (idx, v) = Inr d' \<longrightarrow>
             (\<exists>c. make_dict_val key flags nl_hint tl_hint row idx (strip v) = Inr c
                \<and> d' = (if map_of d (key (strip v)) \<noteq> None then d
                         else d @ [(key (strip v), c)])))"
proof -
  have st: "make_new_cards_step ex key flags nl_hint tl_hint row d (idx, v) =
     (case make_dict_val key flags nl_hint tl_hint row idx (strip v) of
        Inl e \<Rightarrow> Inl e
      | Inr c \<Rightarrow> Inr (if map_of d (key (strip v)) \<noteq> None then d
                      else d @ [(key (strip v), c)]))"
    using assms(1,2) by (rule step_flagged)
  note dv = make_dict_val_parsed [where key = key and val = "strip v" and flags = flags
      and nl_hint = nl_hint and tl_hint = tl_hint and idx = idx, OF assms(3)]
  let ?notes = "join [59] (df_tl_notes_list row)"
  have sub: "(str_in (str_of_nat (idx + 1) @ [58]) ?notes \<or> str_in (str_of_nat (idx + 1) @ [61]) ?notes)
      = (\<exists>p q. ?notes = p @ str_of_nat (idx + 1) @ [58] @ q
              \<or> ?notes = p @ str_of_nat (idx + 1) @ [61] @ q)"
    by (auto simp: str_in_iff)
  have a: "(make_new_cards_step ex key flags nl_hint tl_hint row d (idx, v)
            = Inl MisformattedReferenceError)
          = (str_in (str_of_nat (idx + 1) @ [58]) ?notes \<or> str_in (str_of_nat (idx + 1) @ [61]) ?notes)"
    unfolding st dv using assms(4) by (auto simp: resolve_definition_def Let_def)
  have b: "\<forall>c. make_dict_val key flags nl_hint tl_hint row idx (strip v) = Inr c \<longrightarrow>
             answer_lang c = [91] @ nl_hint @ [93] \<and> tl_defs c = []"
    unfolding dv using assms(4) by (auto simp: resolve_definition_def Let_def split: if_splits)
  have c: "\<forall>d'. make_new_cards_step ex key flags nl_hint tl_hint row d (idx, v) = Inr d' \<longrightarrow>
             (\<exists>c. make_dict_val key flags nl_hint tl_hint row idx (strip v) = Inr c
                \<and> d' = (if map_of d (key (strip v)) \<noteq> None then d
                         else d @ [(key (strip v), c)]))"
    unfolding st by (auto split: sum.splits)
  from a b c sub show ?thesis by simp
qed

theorem C9_missing_reference_witness:
  "make_new_cards_step {} ex_key ex_flags (ustr ''N'') (ustr ''T'')
      (ex_row [ustr ''Haus'', ustr ''Bau'' @ [176]] [ustr ''see 2: old''])
      [] (1, ustr ''Bau'' @ [176]) = Inl MisformattedReferenceError
   \<and> (\<exists>c. make_new_cards_step {} ex_key ex_flags (ustr ''N'') (ustr ''T'')
           (ex_row [ustr ''Haus'', ustr ''Bau'' @ [176]] [ustr ''1: old''])
           [] (1, ustr ''Bau'' @ [176]) = Inr [(ustr ''Bau'', c)]
         \<and> answer_lang c = ustr ''[N]'' \<and> tl_defs c = [])"
proof -
  let ?v = "ustr ''Bau'' @ [176]"
  let ?row1 = "ex_row [ustr ''Haus'', ?v] [ustr ''see 2: old'']"
  let ?row2 = "ex_row [ustr ''Haus'', ?v] [ustr ''1: old'']"
  have f: "\<not> isdisjoint ex_flags (strip ?v)" by (simp add: synth_eval)
  have n: "ex_key (strip ?v) \<notin> {}" by simp
  have p1: "to_def_dict (df_tl_notes_list ?row1) = Inr Map.empty" by (simp add: synth_eval)
  have p2: "to_def_dict (df_tl_notes_list ?row2) = Inr [1 \<mapsto> (None, ustr ''old'')]"
    by (simp add: synth_eval)
  have s1: "join [59] (df_tl_notes_list ?row1) = ustr ''see '' @ str_of_nat (1 + 1) @ [58] @ ustr '' old''"
    by (simp add: ex_row_def str_eval str_of_nat.simps)
  have a: "make_new_cards_step {} ex_key ex_flags (ustr ''N'') (ustr ''T'') ?row1 [] (1, ?v)
             = Inl MisformattedReferenceError"
    using C9_missing_reference [where key = ex_key and flags = ex_flags
        and v = "ustr ''Bau'' @ [176]" and ex = "{}" and idx = 1 and nl_hint = "ustr ''N''"
        and tl_hint = "ustr ''T''" and d = "[]", OF f n p1] s1
    by blast
  have e2: "\<exists>d'. make_new_cards_step {} ex_key ex_flags (ustr ''N'') (ustr ''T'') ?row2 [] (1, ?v)
             = Inr d'"
    by (simp add: synth_eval str_of_nat.simps)
  have b: "\<exists>c. make_new_cards_step {} ex_key ex_flags (ustr ''N'') (ustr ''T'') ?row2 [] (1, ?v)
             = Inr [(ustr ''Bau'', c)] \<and> answer_lang c = ustr ''[N]'' \<and> tl_defs c = []"
    using C9_missing_reference [where key = ex_key and flags = ex_flags
        and v = "ustr ''Bau'' @ [176]" and ex = "{}" and idx = 1 and nl_hint = "ustr ''N''"
        and tl_hint = "ustr ''T''" and d = "[]", OF f n p2] e2
    by (auto simp add: ex_key_def ex_flags_def translate_def str_eval)
  from a b show ?thesis by blast
qed

section \<open>Errors of the parser in a run\<close>

lemma make_new_cards_rows_append:
  "make_new_cards_rows ex key flags nl_hint tl_hint d (xs @ ys) =
     (case make_new_cards_rows ex key flags nl_hint tl_hint d xs of
        Inl e \<Rightarrow> Inl e
      | Inr d' \<Rightarrow> make_new_cards_rows ex key flags nl_hint tl_hint d' ys)"
  by (induction xs arbitrary: d) (auto split: sum.splits)

lemma make_dict_val_parse_error:
  "to_def_dict (df_tl_notes_list row) = Inl e \<Longrightarrow>
   make_dict_val key flags nl_hint tl_hint row idx val = Inl e"
  by (simp add: make_dict_val_def Let_def)

lemma make_new_cards_loop_parse_error:
  assumes "to_def_dict (df_tl_notes_list row) = Inl e"
    and "\<exists>iv\<in>set ivs. \<not> isdisjoint flags (strip (snd iv)) \<and> key (strip (snd iv)) \<notin> ex"
  shows "make_new_cards_loop ex key flags nl_hint tl_hint row d ivs = Inl e"
  using assms(2)
proof (induction ivs arbitrary: d)
  case Nil
  then show ?case by simp
next
  case (Cons iv ivs)
  show ?case
  proof (cases "\<not> isdisjoint flags (strip (snd iv)) \<and> key (strip (snd iv)) \<notin> ex")
    case True
    then have "make_new_cards_step ex key flags nl_hint tl_hint row d iv = Inl e"
      using step_flagged [of flags "snd iv" key ex nl_hint tl_hint row d "fst iv"]
        make_dict_val_parse_error [OF assms(1)]
      by simp
    then show ?thesis by simp
  next
    case False
    then have st: "make_new_cards_step ex key flags nl_hint tl_hint row d iv = Inr d"
      using step_not_attempted [of flags "snd iv" key ex nl_hint tl_hint row d "fst iv"]
      by auto
    from False Cons.prems
    have "\<exists>iv\<in>set ivs. \<not> isdisjoint flags (strip (snd iv)) \<and> key (strip (snd iv)) \<notin> ex"
      by auto
    then show ?thesis using Cons.IH st by simp
  qed
qed

lemma make_new_cards_loop_no_attempt:
  assumes "\<forall>iv\<in>set ivs. isdisjoint flags (strip (snd iv)) \<or> key (strip (snd iv)) \<in> ex"
  shows "make_new_cards_loop ex key flags nl_hint tl_hint row d ivs = Inr d"
  using assms
proof (induction ivs)
  case Nil
  then show ?case by simp
next
  case (Cons iv ivs)
  then have "make_new_cards_step ex key flags nl_hint tl_hint row d iv = Inr d"
    using step_not_attempted [of flags "snd iv" key ex nl_hint tl_hint row d "fst iv"]
    by auto
  then show ?case using Cons by simp
qed

lemma snd_set_enumerate: "snd ` set (enumerate n xs) = set xs"
  by (metis list.set_map map_snd_enumerate)

lemmas merge_eval =
  create_tl_additional_output_def merged_frame_def tl1_flagged_dict_def tl1_not_flagged_set_def
  add_unflagged_headword_to_set_def tl1_df_def process_tl_override_df_def tl3_columns_def
  process_row_def merge_outer_def rows_for_key_def output_row_def np_where_def
  id_has_nan_def id_object_def ex_collab_def ex_ov_df_def ex_ov_row_def sid_def

text \<open>
  C6 (as amended). \<open>_to_def_dict\<close> is called inside the loop over the tokens, after the
  tests for the flag and for the excluded headwords. For a row of \<open>df\<close> whose notes produce
  the same key twice and that has at least one flagged token whose headword is not in the
  set of unflagged headwords, \<open>_make_new_cards\<close> raises the duplicate-reference error,
  whatever the dictionary holds; the run over \<open>df\<close> ends with the error of an earlier row
  if there is one and with the duplicate-reference error otherwise, and so does
  \<open>create_tl_additional_output\<close>. A row in which every token is unflagged or has an
  excluded headword is processed without parsing its notes: the dictionary comes back
  as it is, whatever the notes hold.
\<close>

theorem C6_duplicate_reference_when_attempted:
  assumes "to_def_dict (df_tl_notes_list row) = Inl DuplicateReferenceError"
    and "v \<in> set (df_tl1_list row)"
    and "\<not> isdisjoint flags (strip v)"
    and "key (strip v) \<notin> tl1_not_flagged_set key flags (pre @ row # post)"
  shows "make_new_cards (tl1_not_flagged_set key flags (pre @ row # post)) d key flags
            nl_abbr tl_abbr row = Inl DuplicateReferenceError
       \<and> tl1_flagged_dict key flags nl_abbr tl_abbr (pre @ row # post) =
           (case make_new_cards_rows (tl1_not_flagged_set key flags (pre @ row # post))
                   key flags nl_abbr tl_abbr [] pre of
              Inl e \<Rightarrow> Inl e
            | Inr d' \<Rightarrow> Inl DuplicateReferenceError)
       \<and> create_tl_additional_output C key flags tl_override_df braces_html_class
            nl_abbr tl_abbr flag_id_prefix st (pre @ row # post) =
           (case make_new_cards_rows (tl1_not_flagged_set key flags (pre @ row # post))
                   key flags nl_abbr tl_abbr [] pre of
              Inl e \<Rightarrow> Inl e
            | Inr d' \<Rightarrow> Inl DuplicateReferenceError)
       \<and> (\<forall>ex row' d'.
             (\<forall>v'\<in>set (df_tl1_list row'). isdisjoint flags (strip v') \<or> key (strip v') \<in> ex)
             \<longrightarrow> make_new_cards ex d' key flags nl_abbr tl_abbr row' = Inr d')"
proof -
  let ?ex = "tl1_not_flagged_set key flags (pre @ row # post)"
  have "\<exists>iv\<in>set (enumerate 0 (df_tl1_list row)).
          \<not> isdisjoint flags (strip (snd iv)) \<and> key (strip (snd iv)) \<notin> ?ex"
    using assms(2,3,4) snd_set_enumerate [of 0 "df_tl1_list row"] by force
  then have a: "make_new_cards ?ex d key flags nl_abbr tl_abbr row = Inl DuplicateReferenceError"
    for d
    unfolding make_new_cards_def
    by (rule make_new_cards_loop_parse_error [OF assms(1)])
  have b: "tl1_flagged_dict key flags nl_abbr tl_abbr (pre @ row # post) =
           (case make_new_cards_rows ?ex key flags nl_abbr tl_abbr [] pre of
              Inl e \<Rightarrow> Inl e
            | Inr d' \<Rightarrow> Inl DuplicateReferenceError)"
    by (simp add: tl1_flagged_dict_def make_new_cards_rows_append a split: sum.splits)
  have c: "create_tl_additional_output C key flags tl_override_df braces_html_class
            nl_abbr tl_abbr flag_id_prefix st (pre @ row # post) =
           (case make_new_cards_rows ?ex key flags nl_abbr tl_abbr [] pre of
              Inl e \<Rightarrow> Inl e
            | Inr d' \<Rightarrow> Inl DuplicateReferenceError)"
    unfolding create_tl_additional_output_def merged_frame_def b
    by (simp split: sum.splits)
  have e: "\<forall>ex row' d'.
             (\<forall>v'\<in>set (df_tl1_list row'). isdisjoint flags (strip v') \<or> key (strip v') \<in> ex)
             \<longrightarrow> make_new_cards ex d' key flags nl_abbr tl_abbr row' = Inr d'"
  proof (intro allI impI)
    fix ex :: "pystr set" and row' :: in_row and d' :: flagged_dict
    assume h: "\<forall>v'\<in>set (df_tl1_list row').
                 isdisjoint flags (strip v') \<or> key (strip v') \<in> ex"
    have "\<forall>iv\<in>set (enumerate 0 (df_tl1_list row')).
            isdisjoint flags (strip (snd iv)) \<or> key (strip (snd iv)) \<in> ex"
    proof
      fix iv assume "iv \<in> set (enumerate 0 (df_tl1_list row'))"
      then have "snd iv \<in> snd ` set (enumerate 0 (df_tl1_list row'))" by (rule imageI)
      then have "snd iv \<in> set (df_tl1_list row')" unfolding snd_set_enumerate .
      then show "isdisjoint flags (strip (snd iv)) \<or> key (strip (snd iv)) \<in> ex"
        using h by blast
    qed
    then show "make_new_cards ex d' key flags nl_abbr tl_abbr row' = Inr d'"
      unfolding make_new_cards_def by (rule make_new_cards_loop_no_attempt)
  qed
  from a b c e show ?thesis by blast
qed

theorem C6_duplicate_reference_when_attempted_witness:
  "tl1_flagged_dict ex_key ex_flags (ustr ''N'') (ustr ''T'')
      [ex_row [ustr ''Haus'' @ [176]] [ustr ''1=2'', ustr ''1: x'']] = Inl DuplicateReferenceError
   \<and> create_tl_additional_output ex_collab ex_key ex_flags
        (Some (ex_ov_df [ex_ov_row (sid ''8'') (ustr ''Tor'')])) None
        (ustr ''N'') (ustr ''T'') (ustr ''HW_'') 0
        [ex_row [ustr ''Haus'' @ [176]] [ustr ''1=2'', ustr ''1: x'']] = Inl DuplicateReferenceError
   \<and> make_new_cards {ustr ''Tor''} [] ex_key ex_flags (ustr ''N'') (ustr ''T'')
        (ex_row [ustr ''Bau'', ustr ''Tor'' @ [176]] [ustr ''1=2'', ustr ''1: x'']) = Inr []"
proof -
  let ?row = "ex_row [ustr ''Haus'' @ [176]] [ustr ''1=2'', ustr ''1: x'']"
  have p: "to_def_dict (df_tl_notes_list ?row) = Inl DuplicateReferenceError"
    by (simp add: synth_eval)
  have m: "ustr ''Haus'' @ [176] \<in> set (df_tl1_list ?row)" by (simp add: ex_row_def)
  have f: "\<not> isdisjoint ex_flags (strip (ustr ''Haus'' @ [176]))" by (simp add: synth_eval)
  have n: "ex_key (strip (ustr ''Haus'' @ [176])) \<notin> tl1_not_flagged_set ex_key ex_flags ([] @ ?row # [])"
    by (simp add: tl1_not_flagged_set_def add_unflagged_headword_to_set_def synth_eval)
  note T = C6_duplicate_reference_when_attempted [where key = ex_key and flags = ex_flags
        and v = "ustr ''Haus'' @ [176]" and pre = "[]" and post = "[]" and row = ?row
        and nl_abbr = "ustr ''N''" and tl_abbr = "ustr ''T''" and C = ex_collab
        and tl_override_df = "Some (ex_ov_df [ex_ov_row (sid ''8'') (ustr ''Tor'')])"
        and braces_html_class = None
        and flag_id_prefix = "ustr ''HW_''" and st = 0 and d = "[]", OF p m f n]
  have q: "\<forall>v'\<in>set (df_tl1_list (ex_row [ustr ''Bau'', ustr ''Tor'' @ [176]]
                                       [ustr ''1=2'', ustr ''1: x''])).
             isdisjoint ex_flags (strip v') \<or> ex_key (strip v') \<in> {ustr ''Tor''}"
    by (simp add: synth_eval)
  have w: "make_new_cards {ustr ''Tor''} [] ex_key ex_flags (ustr ''N'') (ustr ''T'')
        (ex_row [ustr ''Bau'', ustr ''Tor'' @ [176]] [ustr ''1=2'', ustr ''1: x'']) = Inr []"
    using T [THEN conjunct2, THEN conjunct2, THEN conjunct2, THEN spec, THEN spec, THEN spec,
        THEN mp, OF q] .
  show ?thesis
    using T [THEN conjunct2, THEN conjunct1] T [THEN conjunct2, THEN conjunct2, THEN conjunct1] w
    by simp
qed

text \<open>
  C6 as stated fails on a row without a flagged token: the notes \<open>["1=2", "1: x"]\<close>
  produce key 1 twice, but the only token \<open>Haus\<close> is not flagged, the notes are never
  parsed, the row is processed without error and the run, here with an override table of
  the one row \<open>Tor\<close>, returns its rows.
\<close>

theorem C6_counterexample:
  "to_def_dict (df_tl_notes_list (ex_row [ustr ''Haus''] [ustr ''1=2'', ustr ''1: x'']))
     = Inl DuplicateReferenceError
   \<and> make_new_cards {ustr ''Haus''} [] ex_key ex_flags (ustr ''N'') (ustr ''T'')
        (ex_row [ustr ''Haus''] [ustr ''1=2'', ustr ''1: x'']) = Inr []
   \<and> tl1_flagged_dict ex_key ex_flags (ustr ''N'') (ustr ''T'')
        [ex_row [ustr ''Haus''] [ustr ''1=2'', ustr ''1: x''], ex_row [ustr ''Bau'' @ [176]] []]
      = Inr [(ustr ''Bau'',
              \<lparr>merge_id = ustr ''Bau'', nl1 = ustr ''house'', part_of_speech = ustr ''N'',
               tl_defs = [], answer_lang = ustr ''[N]'', tl1 = ustr ''Bau'',
               tl2 = ustr ''H2'', tl_pronun = []\<rparr>)]
   \<and> (case create_tl_additional_output ex_collab ex_key ex_flags
              (Some (ex_ov_df [ex_ov_row (sid ''8'') (ustr ''Tor'')])) None
              (ustr ''N'') (ustr ''T'') (ustr ''HW_'') 0
              [ex_row [ustr ''Haus''] [ustr ''1=2'', ustr ''1: x''],
               ex_row [ustr ''Bau'' @ [176]] []] of
          Inl e \<Rightarrow> False
        | Inr (out, st') \<Rightarrow>
            map note_id out = [Some (PStr (ustr ''HW_Bau'')), Some (PStr (ustr ''8''))])"
  by (simp add: synth_eval merge_eval str_of_nat.simps)

section \<open>The set of unflagged headwords and the keys of the dictionary\<close>

lemma isdisjoint_iff: "isdisjoint flags val \<longleftrightarrow> set val \<inter> set flags = {}"
  by (auto simp: isdisjoint_def filter_empty_conv)

lemma add_unflagged_headword_to_set_eq:
  "add_unflagged_headword_to_set col s key flags =
     s \<union> {key (strip v) | v. v \<in> set col \<and> key (strip v) \<noteq> [] \<and> isdisjoint flags (strip v)}"
proof (induction col arbitrary: s)
  case Nil
  then show ?case by (simp add: add_unflagged_headword_to_set_def)
next
  case (Cons a col)
  have unf: "add_unflagged_headword_to_set (a # col) s key flags =
      add_unflagged_headword_to_set col
        (if key (strip a) \<noteq> [] \<and> isdisjoint flags (strip a) then insert (key (strip a)) s else s)
        key flags"
    by (simp add: add_unflagged_headword_to_set_def Let_def)
  show ?case unfolding unf Cons.IH by auto
qed

lemma fold_add_unflagged_eq:
  "fold (\<lambda>row s. add_unflagged_headword_to_set (df_tl1_list row) s key flags) df s =
     s \<union> {key (strip v) | row v. row \<in> set df \<and> v \<in> set (df_tl1_list row)
               \<and> key (strip v) \<noteq> [] \<and> isdisjoint flags (strip v)}"
proof (induction df arbitrary: s)
  case Nil
  then show ?case by simp
next
  case (Cons r df)
  have "fold (\<lambda>row s. add_unflagged_headword_to_set (df_tl1_list row) s key flags) (r # df) s =
      add_unflagged_headword_to_set (df_tl1_list r) s key flags
      \<union> {key (strip v) | row v. row \<in> set df \<and> v \<in> set (df_tl1_list row)
               \<and> key (strip v) \<noteq> [] \<and> isdisjoint flags (strip v)}"
    by (simp add: Cons.IH)
  then show ?case
    unfolding add_unflagged_headword_to_set_eq by auto
qed

lemma step_keys:
  assumes "make_new_cards_step ex key flags nl_hint tl_hint row d iv = Inr d'"
  shows "fst ` set d' \<subseteq> fst ` set d \<union> (- ex)"
  using assms
  by (auto simp: make_new_cards_step_def Let_def split: if_splits sum.splits)

lemma loop_keys:
  assumes "make_new_cards_loop ex key flags nl_hint tl_hint row d ivs = Inr d'"
  shows "fst ` set d' \<subseteq> fst ` set d \<union> (- ex)"
  using assms
proof (induction ivs arbitrary: d)
  case Nil
  then show ?case by auto
next
  case (Cons iv ivs)
  then obtain d1 where s: "make_new_cards_step ex key flags nl_hint tl_hint row d iv = Inr d1"
    and l: "make_new_cards_loop ex key flags nl_hint tl_hint row d1 ivs = Inr d'"
    by (auto split: sum.splits)
  from step_keys [OF s] Cons.IH [OF l] show ?case by blast
qed

lemma rows_keys:
  assumes "make_new_cards_rows ex key flags nl_hint tl_hint d rows = Inr d'"
  shows "fst ` set d' \<subseteq> fst ` set d \<union> (- ex)"
  using assms
proof (induction rows arbitrary: d)
  case Nil
  then show ?case by auto
next
  case (Cons r rows)
  then obtain d1 where s: "make_new_cards ex d key flags nl_hint tl_hint r = Inr d1"
    and l: "make_new_cards_rows ex key flags nl_hint tl_hint d1 rows = Inr d'"
    by (auto split: sum.splits)
  from loop_keys [OF s [unfolded make_new_cards_def]] Cons.IH [OF l] show ?case by blast
qed

text \<open>
  C3. The set \<open>tl1_not_flagged_set\<close> is exactly the set of the headwords of the trimmed
  tokens, over every \<open>tl1_list\<close> of every row of \<open>df\<close>, that contain no flag character
  and whose headword is not empty. A token whose headword is in this set makes no record
  and raises nothing: the loop body leaves the dictionary as it is. When the run over
  \<open>df\<close> succeeds, no headword of the set is a key of the dictionary of flagged cards.
\<close>

theorem C3_mastered_set_and_exclusion:
  "tl1_not_flagged_set key flags df =
     {key (strip v) | row v. row \<in> set df \<and> v \<in> set (df_tl1_list row)
        \<and> set (strip v) \<inter> set flags = {} \<and> key (strip v) \<noteq> []}
   \<and> (\<forall>row d idx v. key (strip v) \<in> tl1_not_flagged_set key flags df \<longrightarrow>
         make_new_cards_step (tl1_not_flagged_set key flags df) key flags nl_abbr tl_abbr
           row d (idx, v) = Inr d)
   \<and> (\<forall>d. tl1_flagged_dict key flags nl_abbr tl_abbr df = Inr d \<longrightarrow>
         (\<forall>h\<in>tl1_not_flagged_set key flags df. map_of d h = None))"
proof -
  have a: "tl1_not_flagged_set key flags df =
     {key (strip v) | row v. row \<in> set df \<and> v \<in> set (df_tl1_list row)
        \<and> set (strip v) \<inter> set flags = {} \<and> key (strip v) \<noteq> []}"
    unfolding tl1_not_flagged_set_def fold_add_unflagged_eq isdisjoint_iff by auto
  have b: "\<forall>row d idx v. key (strip v) \<in> tl1_not_flagged_set key flags df \<longrightarrow>
         make_new_cards_step (tl1_not_flagged_set key flags df) key flags nl_abbr tl_abbr
           row d (idx, v) = Inr d"
    by (simp add: step_not_attempted)
  have c: "\<forall>d. tl1_flagged_dict key flags nl_abbr tl_abbr df = Inr d \<longrightarrow>
         (\<forall>h\<in>tl1_not_flagged_set key flags df. map_of d h = None)"
  proof (intro allI impI ballI)
    fix d h
    assume r: "tl1_flagged_dict key flags nl_abbr tl_abbr df = Inr d"
      and h: "h \<in> tl1_not_flagged_set key flags df"
    from rows_keys [OF r [unfolded tl1_flagged_dict_def]] h
    have "h \<notin> fst ` set d" by auto
    then show "map_of d h = None" by (simp add: map_of_eq_None_iff)
  qed
  from a b c show ?thesis by blast
qed

theorem C3_mastered_set_and_exclusion_witness:
  "tl1_not_flagged_set ex_key ex_flags
      [ex_row [ustr ''Haus'' @ [176], ustr ''Bau'' @ [176]] [], ex_row [ustr '' Haus''] []]
     = {ustr ''Haus''}
   \<and> make_new_cards_step {ustr ''Haus''} ex_key ex_flags (ustr ''N'') (ustr ''T'')
        (ex_row [ustr ''Haus'' @ [176], ustr ''Bau'' @ [176]] []) [] (0, ustr ''Haus'' @ [176])
      = Inr []
   \<and> (case tl1_flagged_dict ex_key ex_flags (ustr ''N'') (ustr ''T'')
         [ex_row [ustr ''Haus'' @ [176], ustr ''Bau'' @ [176]] [], ex_row [ustr '' Haus''] []] of
         Inl e \<Rightarrow> False
       | Inr d \<Rightarrow> map fst d = [ustr ''Bau''] \<and> map_of d (ustr ''Haus'') = None)"
proof -
  let ?df = "[ex_row [ustr ''Haus'' @ [176], ustr ''Bau'' @ [176]] [], ex_row [ustr '' Haus''] []]"
  have s: "tl1_not_flagged_set ex_key ex_flags ?df = {ustr ''Haus''}"
    by (simp add: tl1_not_flagged_set_def add_unflagged_headword_to_set_def synth_eval)
  have k: "ex_key (strip (ustr ''Haus'' @ [176])) \<in> tl1_not_flagged_set ex_key ex_flags ?df"
    unfolding s by (simp add: synth_eval)
  have r: "map fst (projr (tl1_flagged_dict ex_key ex_flags (ustr ''N'') (ustr ''T'') ?df)) = [ustr ''Bau'']
     \<and> \<not> isl (tl1_flagged_dict ex_key ex_flags (ustr ''N'') (ustr ''T'') ?df)"
    unfolding tl1_flagged_dict_def s by (simp add: synth_eval str_of_nat.simps)
  have h: "ustr ''Haus'' \<in> tl1_not_flagged_set ex_key ex_flags ?df"
    unfolding s by simp
  note T = C3_mastered_set_and_exclusion [of ex_key ex_flags ?df "ustr ''N''" "ustr ''T''"]
  have st: "make_new_cards_step (tl1_not_flagged_set ex_key ex_flags ?df) ex_key ex_flags
      (ustr ''N'') (ustr ''T'') (ex_row [ustr ''Haus'' @ [176], ustr ''Bau'' @ [176]] []) []
      (0, ustr ''Haus'' @ [176]) = Inr []"
    using T [THEN conjunct2, THEN conjunct1] k by blast
  obtain d where d: "tl1_flagged_dict ex_key ex_flags (ustr ''N'') (ustr ''T'') ?df = Inr d"
    and f: "map fst d = [ustr ''Bau'']"
    using r by (cases "tl1_flagged_dict ex_key ex_flags (ustr ''N'') (ustr ''T'') ?df") auto
  have "map_of d (ustr ''Haus'') = None"
    using T [THEN conjunct2, THEN conjunct2] d h by blast
  then show ?thesis
    using s st [unfolded s] d f by simp
qed

section \<open>The run as a list of attempts\<close>

lemma collect_append:
  "collect (xs @ ys) =
     (case collect xs of
        Inl e \<Rightarrow> Inl e
      | Inr a \<Rightarrow> (case collect ys of Inl e \<Rightarrow> Inl e | Inr b \<Rightarrow> Inr (a @ b)))"
proof (induction xs)
  case Nil
  then show ?case by (simp split: sum.splits)
next
  case (Cons x xs)
  then show ?case by (cases x) (auto split: sum.splits)
qed

lemma loop_collect:
  fixes ex key flags nl_hint tl_hint row
  defines "att \<equiv> \<lambda>ivs.
     map (\<lambda>iv. case make_dict_val key flags nl_hint tl_hint row (fst iv) (strip (snd iv)) of
                 Inl e \<Rightarrow> Inl e
               | Inr c \<Rightarrow> Inr (key (strip (snd iv)), c))
       (filter (\<lambda>iv. \<not> isdisjoint flags (strip (snd iv)) \<and> key (strip (snd iv)) \<notin> ex) ivs)"
  shows "(\<forall>e. collect (att ivs) = Inl e \<longrightarrow>
            make_new_cards_loop ex key flags nl_hint tl_hint row d ivs = Inl e)
       \<and> (\<forall>cs. collect (att ivs) = Inr cs \<longrightarrow>
            (\<exists>new. make_new_cards_loop ex key flags nl_hint tl_hint row d ivs = Inr (d @ new)
                \<and> map_of (d @ new) = map_of (d @ cs)))"
proof (induction ivs arbitrary: d)
  case Nil
  then show ?case by (simp add: att_def)
next
  case (Cons iv ivs)
  show ?case
  proof (cases "\<not> isdisjoint flags (strip (snd iv)) \<and> key (strip (snd iv)) \<notin> ex")
    case False
    then have st: "make_new_cards_step ex key flags nl_hint tl_hint row d iv = Inr d"
      using step_not_attempted [of flags "snd iv" key ex nl_hint tl_hint row d "fst iv"]
      by auto
    from False have at: "att (iv # ivs) = att ivs" by (auto simp: att_def)
    show ?thesis unfolding at using Cons.IH [of d] st by simp
  next
    case True
    let ?h = "key (strip (snd iv))"
    have st: "make_new_cards_step ex key flags nl_hint tl_hint row d iv =
       (case make_dict_val key flags nl_hint tl_hint row (fst iv) (strip (snd iv)) of
          Inl e \<Rightarrow> Inl e
        | Inr c \<Rightarrow> Inr (if map_of d ?h \<noteq> None then d else d @ [(?h, c)]))"
      using True step_flagged [of flags "snd iv" key ex nl_hint tl_hint row d "fst iv"]
      by simp
    have at: "att (iv # ivs) =
       (case make_dict_val key flags nl_hint tl_hint row (fst iv) (strip (snd iv)) of
          Inl e \<Rightarrow> Inl e
        | Inr c \<Rightarrow> Inr (?h, c)) # att ivs"
      using True by (simp add: att_def)
    show ?thesis
    proof (cases "make_dict_val key flags nl_hint tl_hint row (fst iv) (strip (snd iv))")
      case (Inl e)
      then show ?thesis unfolding at by (simp add: st)
    next
      case (Inr c)
      show ?thesis
      proof (cases "map_of d ?h \<noteq> None")
        case True
        then obtain c0 where c0: "map_of d ?h = Some c0" by auto
        have st1: "make_new_cards_step ex key flags nl_hint tl_hint row d iv = Inr d"
          using st Inr True by simp
        have eq: "map_of (d @ (?h, c) # cs) = map_of (d @ cs)" for cs
          using c0 by (auto simp: fun_eq_iff map_add_def split: option.splits)
        show ?thesis
          unfolding at Inr using Cons.IH [of d] st1 eq
          by (auto split: sum.splits)
      next
        case False
        have st1: "make_new_cards_step ex key flags nl_hint tl_hint row d iv = Inr (d @ [(?h, c)])"
          using st Inr False by simp
        show ?thesis
          unfolding at Inr using Cons.IH [of "d @ [(?h, c)]"] st1
          by (auto split: sum.splits)
      qed
    qed
  qed
qed

lemma make_new_cards_collect:
  "(\<forall>e. collect (attempts_of_row ex key flags nl_hint tl_hint row) = Inl e \<longrightarrow>
       make_new_cards ex d key flags nl_hint tl_hint row = Inl e)
   \<and> (\<forall>cs. collect (attempts_of_row ex key flags nl_hint tl_hint row) = Inr cs \<longrightarrow>
       (\<exists>new. make_new_cards ex d key flags nl_hint tl_hint row = Inr (d @ new)
           \<and> map_of (d @ new) = map_of (d @ cs)))"
  unfolding attempts_of_row_def make_new_cards_def by (rule loop_collect)

lemma map_of_append_cong:
  assumes "map_of (d @ a) = map_of (d @ b)" and "map_of ((d @ a) @ c) = map_of ((d @ a) @ e)"
  shows "map_of (d @ a @ c) = map_of (d @ b @ e)"
proof -
  have "map_of (d @ a @ c) = map_of e ++ map_of (d @ a)"
    using assms(2) by simp
  also have "\<dots> = map_of e ++ map_of (d @ b)" using assms(1) by simp
  finally show ?thesis by simp
qed

lemma rows_collect:
  "(\<forall>e. collect (attempts ex key flags nl_hint tl_hint rows) = Inl e \<longrightarrow>
       make_new_cards_rows ex key flags nl_hint tl_hint d rows = Inl e)
   \<and> (\<forall>cs. collect (attempts ex key flags nl_hint tl_hint rows) = Inr cs \<longrightarrow>
       (\<exists>new. make_new_cards_rows ex key flags nl_hint tl_hint d rows = Inr (d @ new)
           \<and> map_of (d @ new) = map_of (d @ cs)))"
proof (induction rows arbitrary: d)
  case Nil
  then show ?case by (simp add: attempts_def)
next
  case (Cons r rows)
  have at: "attempts ex key flags nl_hint tl_hint (r # rows) =
      attempts_of_row ex key flags nl_hint tl_hint r @ attempts ex key flags nl_hint tl_hint rows"
    by (simp add: attempts_def)
  show ?case
  proof (cases "collect (attempts_of_row ex key flags nl_hint tl_hint r)")
    case (Inl e)
    then have "make_new_cards ex d key flags nl_hint tl_hint r = Inl e"
      using make_new_cards_collect [of ex key flags nl_hint tl_hint r d] by simp
    then show ?thesis unfolding at collect_append Inl by simp
  next
    case (Inr cs1)
    then obtain new1 where m: "make_new_cards ex d key flags nl_hint tl_hint r = Inr (d @ new1)"
      and e1: "map_of (d @ new1) = map_of (d @ cs1)"
      using make_new_cards_collect [of ex key flags nl_hint tl_hint r d] by auto
    show ?thesis
    proof (cases "collect (attempts ex key flags nl_hint tl_hint rows)")
      case (Inl e)
      then have "make_new_cards_rows ex key flags nl_hint tl_hint (d @ new1) rows = Inl e"
        using Cons.IH [of "d @ new1"] by simp
      then show ?thesis unfolding at collect_append Inr Inl using m by simp
    next
      case cs2: (Inr cs2)
      then obtain new2 where
        r2: "make_new_cards_rows ex key flags nl_hint tl_hint (d @ new1) rows
               = Inr ((d @ new1) @ new2)"
        and e2: "map_of ((d @ new1) @ new2) = map_of ((d @ new1) @ cs2)"
        using Cons.IH [of "d @ new1"] by auto
      have "map_of (d @ new1 @ new2) = map_of (d @ cs1 @ cs2)"
        using e1 e2 by (rule map_of_append_cong)
      then show ?thesis unfolding at collect_append Inr cs2 using m r2 by auto
    qed
  qed
qed

text \<open>
  C4 (as amended). Every attempt is made in full before the dictionary is looked at: the
  notes of its row are parsed, its reference is resolved and its headword is tested, also
  when the headword already has a record. The run of \<open>_make_new_cards\<close> over the rows,
  from a dictionary \<open>d\<close>, fails exactly when one of the attempts fails, with the first
  such error, whatever \<open>d\<close> holds: a headword that is already a key raises nothing, and
  an attempt that fails on its own row aborts the run also when its headword is already
  a key. When it succeeds with the records \<open>cs\<close>
  of the attempts in processing order, the result is \<open>d\<close> with new items appended; it
  looks every headword up as \<open>d\<close> followed by \<open>cs\<close> does, the first item with the key
  winning; a headword that was a key of \<open>d\<close> keeps its record; and a headword that was not
  has the record of the first attempt with that headword. The result is a function of the
  input, so a run on the same rows in the same order gives the same dictionary.
\<close>

theorem C4_first_writer_wins:
  "(\<forall>e. (make_new_cards_rows ex key flags nl_hint tl_hint d rows = Inl e)
          = (collect (attempts ex key flags nl_hint tl_hint rows) = Inl e))
   \<and> (\<forall>d'. make_new_cards_rows ex key flags nl_hint tl_hint d rows = Inr d' \<longrightarrow>
         (\<exists>cs new. collect (attempts ex key flags nl_hint tl_hint rows) = Inr cs
             \<and> d' = d @ new \<and> map_of d' = map_of (d @ cs)
             \<and> (\<forall>h. h \<in> fst ` set d \<longrightarrow> map_of d' h = map_of d h)
             \<and> (\<forall>h c pre post. cs = pre @ (h, c) # post \<and> h \<notin> fst ` set d
                    \<and> h \<notin> fst ` set pre \<longrightarrow> map_of d' h = Some c)))"
proof -
  note rc = rows_collect [of ex key flags nl_hint tl_hint rows d]
  have a: "\<forall>e. (make_new_cards_rows ex key flags nl_hint tl_hint d rows = Inl e)
          = (collect (attempts ex key flags nl_hint tl_hint rows) = Inl e)"
  proof (cases "collect (attempts ex key flags nl_hint tl_hint rows)")
    case (Inl e)
    then show ?thesis using rc by auto
  next
    case (Inr cs)
    then show ?thesis using rc by auto
  qed
  have b: "\<forall>d'. make_new_cards_rows ex key flags nl_hint tl_hint d rows = Inr d' \<longrightarrow>
         (\<exists>cs new. collect (attempts ex key flags nl_hint tl_hint rows) = Inr cs
             \<and> d' = d @ new \<and> map_of d' = map_of (d @ cs)
             \<and> (\<forall>h. h \<in> fst ` set d \<longrightarrow> map_of d' h = map_of d h)
             \<and> (\<forall>h c pre post. cs = pre @ (h, c) # post \<and> h \<notin> fst ` set d
                    \<and> h \<notin> fst ` set pre \<longrightarrow> map_of d' h = Some c))"
  proof (intro allI impI)
    fix d'
    assume r: "make_new_cards_rows ex key flags nl_hint tl_hint d rows = Inr d'"
    then obtain cs where cs: "collect (attempts ex key flags nl_hint tl_hint rows) = Inr cs"
      using rc by (cases "collect (attempts ex key flags nl_hint tl_hint rows)") auto
    then obtain new where n: "d' = d @ new" and m: "map_of d' = map_of (d @ cs)"
      using rc r by auto
    have old: "\<forall>h. h \<in> fst ` set d \<longrightarrow> map_of d' h = map_of d h"
    proof (intro allI impI)
      fix h assume "h \<in> fst ` set d"
      then obtain c where "map_of d h = Some c"
        by (metis map_of_eq_None_iff not_Some_eq)
      then show "map_of d' h = map_of d h" unfolding m by (simp add: map_add_def)
    qed
    have first: "\<forall>h c pre post. cs = pre @ (h, c) # post \<and> h \<notin> fst ` set d
                    \<and> h \<notin> fst ` set pre \<longrightarrow> map_of d' h = Some c"
    proof (intro allI impI)
      fix h c pre post
      assume h: "cs = pre @ (h, c) # post \<and> h \<notin> fst ` set d \<and> h \<notin> fst ` set pre"
      then have "map_of d h = None" and "map_of pre h = None"
        by (simp_all add: map_of_eq_None_iff)
      then show "map_of d' h = Some c" unfolding m using h
        by (simp add: map_add_def)
    qed
    from cs n m old first
    show "\<exists>cs new. collect (attempts ex key flags nl_hint tl_hint rows) = Inr cs
             \<and> d' = d @ new \<and> map_of d' = map_of (d @ cs)
             \<and> (\<forall>h. h \<in> fst ` set d \<longrightarrow> map_of d' h = map_of d h)
             \<and> (\<forall>h c pre post. cs = pre @ (h, c) # post \<and> h \<notin> fst ` set d
                    \<and> h \<notin> fst ` set pre \<longrightarrow> map_of d' h = Some c)"
      by blast
  qed
  from a b show ?thesis by blast
qed

theorem C4_first_writer_wins_witness:
  "(case make_new_cards_rows {} ex_key ex_flags (ustr ''N'') (ustr ''T'') []
          [ex_row [ustr ''Haus'' @ [176]] [ustr ''1: first''],
           ex_row [ustr ''Haus'' @ [8224], ustr ''Bau'' @ [176]] [ustr ''1: second'']] of
      Inl e \<Rightarrow> False
    | Inr d' \<Rightarrow> map fst d' = [ustr ''Haus'', ustr ''Bau'']
        \<and> map_option tl_defs (map_of d' (ustr ''Haus'')) = Some (ustr ''first''))"
proof -
  let ?rows = "[ex_row [ustr ''Haus'' @ [176]] [ustr ''1: first''],
           ex_row [ustr ''Haus'' @ [8224], ustr ''Bau'' @ [176]] [ustr ''1: second'']]"
  let ?c1 = "\<lparr>merge_id = ustr ''Haus'', nl1 = ustr ''house'', part_of_speech = ustr ''N'',
       tl_defs = ustr ''first'', answer_lang = ustr ''[N|T]'', tl1 = ustr ''Haus'',
       tl2 = ustr ''H2'', tl_pronun = []\<rparr>"
  let ?c2 = "\<lparr>merge_id = ustr ''Haus'', nl1 = ustr ''house'', part_of_speech = ustr ''N'',
       tl_defs = ustr ''second'', answer_lang = ustr ''[N|T]'', tl1 = ustr ''Haus'',
       tl2 = ustr ''H2'', tl_pronun = []\<rparr>"
  let ?c3 = "\<lparr>merge_id = ustr ''Bau'', nl1 = ustr ''house'', part_of_speech = ustr ''N'',
       tl_defs = [], answer_lang = ustr ''[N]'', tl1 = ustr ''Bau'',
       tl2 = [], tl_pronun = []\<rparr>"
  have at: "collect (attempts {} ex_key ex_flags (ustr ''N'') (ustr ''T'') ?rows)
     = Inr ([] @ (ustr ''Haus'', ?c1) # [(ustr ''Haus'', ?c2), (ustr ''Bau'', ?c3)])"
    by (simp add: attempts_def attempts_of_row_def synth_eval str_of_nat.simps)
  have run: "map fst (projr (make_new_cards_rows {} ex_key ex_flags (ustr ''N'') (ustr ''T'') [] ?rows))
       = [ustr ''Haus'', ustr ''Bau'']
     \<and> \<not> isl (make_new_cards_rows {} ex_key ex_flags (ustr ''N'') (ustr ''T'') [] ?rows)"
    by (simp add: synth_eval str_of_nat.simps)
  then obtain d' where
    d: "make_new_cards_rows {} ex_key ex_flags (ustr ''N'') (ustr ''T'') [] ?rows = Inr d'"
    and f: "map fst d' = [ustr ''Haus'', ustr ''Bau'']"
    by (cases "make_new_cards_rows {} ex_key ex_flags (ustr ''N'') (ustr ''T'') [] ?rows") auto
  note T = C4_first_writer_wins [of "{}" ex_key ex_flags "ustr ''N''" "ustr ''T''" "[]" ?rows]
  from T [THEN conjunct2, rule_format, OF d] obtain cs new where
    cs: "collect (attempts {} ex_key ex_flags (ustr ''N'') (ustr ''T'') ?rows) = Inr cs"
    and fw: "\<forall>h c pre post. cs = pre @ (h, c) # post \<and> h \<notin> fst ` set ([] :: flagged_dict)
                    \<and> h \<notin> fst ` set pre \<longrightarrow> map_of d' h = Some c"
    by blast
  have cseq: "cs = [] @ (ustr ''Haus'', ?c1) # [(ustr ''Haus'', ?c2), (ustr ''Bau'', ?c3)]"
    using cs at by simp
  have "map_of d' (ustr ''Haus'') = Some ?c1"
    using fw [rule_format, of "[]" "ustr ''Haus''" ?c1 "[(ustr ''Haus'', ?c2), (ustr ''Bau'', ?c3)]"]
      cseq by simp
  then show ?thesis using d f by simp
qed

text \<open>
  C4 as stated fails when a later attempt for the headword fails on its own row. After
  the row with the token \<open>Haus\<degree>\<close> has stored the record of \<open>Haus\<close>, a second row with
  the token \<open>Haus\<dagger>\<close> raises an error instead of leaving the record unchanged: the
  misformatted-reference error with the notes \<open>["x 1: y"]\<close>, the duplicate-reference error
  with the notes \<open>["1=2", "1: x"]\<close>, and \<open>IndexError\<close> with the notes \<open>["1=5 x"]\<close>.
\<close>

theorem C4_counterexample:
  "make_new_cards_rows {} ex_key ex_flags (ustr ''N'') (ustr ''T'') []
      [ex_row [ustr ''Haus'' @ [176]] [ustr ''1: first'']] =
     Inr [(ustr ''Haus'',
           \<lparr>merge_id = ustr ''Haus'', nl1 = ustr ''house'', part_of_speech = ustr ''N'',
            tl_defs = ustr ''first'', answer_lang = ustr ''[N|T]'', tl1 = ustr ''Haus'',
            tl2 = ustr ''H2'', tl_pronun = []\<rparr>)]
   \<and> make_new_cards_rows {} ex_key ex_flags (ustr ''N'') (ustr ''T'') []
      [ex_row [ustr ''Haus'' @ [176]] [ustr ''1: first''],
       ex_row [ustr ''Haus'' @ [8224]] [ustr ''x 1: y'']] = Inl MisformattedReferenceError
   \<and> make_new_cards_rows {} ex_key ex_flags (ustr ''N'') (ustr ''T'') []
      [ex_row [ustr ''Haus'' @ [176]] [ustr ''1: first''],
       ex_row [ustr ''Haus'' @ [8224]] [ustr ''1=2'', ustr ''1: x'']] = Inl DuplicateReferenceError
   \<and> make_new_cards_rows {} ex_key ex_flags (ustr ''N'') (ustr ''T'') []
      [ex_row [ustr ''Haus'' @ [176]] [ustr ''1: first''],
       ex_row [ustr ''Haus'' @ [8224]] [ustr ''1=5 x'']] = Inl IndexError"
  by (simp add: synth_eval str_of_nat.simps)

section \<open>The merged frame\<close>

lemma length_tag_all: "length (fst (tag_all C st xs)) = length xs"
proof (induction xs arbitrary: st)
  case Nil
  then show ?case by simp
next
  case (Cons ct cts)
  obtain x st1 where a: "tag_audio_and_markup C st (fst ct) (snd ct) = (x, st1)"
    by (cases "tag_audio_and_markup C st (fst ct) (snd ct)") auto
  obtain ys st2 where b: "tag_all C st1 cts = (ys, st2)"
    by (cases "tag_all C st1 cts") auto
  from Cons.IH [of st1] b have "length ys = length cts" by simp
  then show ?case using a b by simp
qed

lemma make_dict_val_merge_id:
  "make_dict_val key flags nl_hint tl_hint row idx val = Inr c \<Longrightarrow> merge_id c = key val"
  by (auto simp: make_dict_val_def Let_def split: sum.splits prod.splits if_splits)

text \<open>The dictionary has distinct keys, and every record carries its key as \<open>merge_id\<close>.\<close>

lemma step_keyed:
  assumes "make_new_cards_step ex key flags nl_hint tl_hint row d iv = Inr d'"
    and "distinct (map fst d)" and "\<forall>hc\<in>set d. merge_id (snd hc) = fst hc"
  shows "distinct (map fst d') \<and> (\<forall>hc\<in>set d'. merge_id (snd hc) = fst hc)"
proof (cases "\<not> isdisjoint flags (strip (snd iv)) \<and> key (strip (snd iv)) \<notin> ex")
  case False
  then have "make_new_cards_step ex key flags nl_hint tl_hint row d iv = Inr d"
    using step_not_attempted [of flags "snd iv" key ex nl_hint tl_hint row d "fst iv"]
    by auto
  then show ?thesis using assms by simp
next
  case True
  let ?h = "key (strip (snd iv))"
  have st: "make_new_cards_step ex key flags nl_hint tl_hint row d iv =
       (case make_dict_val key flags nl_hint tl_hint row (fst iv) (strip (snd iv)) of
          Inl e \<Rightarrow> Inl e
        | Inr c \<Rightarrow> Inr (if map_of d ?h \<noteq> None then d else d @ [(?h, c)]))"
    using True step_flagged [of flags "snd iv" key ex nl_hint tl_hint row d "fst iv"]
    by simp
  from assms(1) st obtain c where
    c: "make_dict_val key flags nl_hint tl_hint row (fst iv) (strip (snd iv)) = Inr c"
    and d': "d' = (if map_of d ?h \<noteq> None then d else d @ [(?h, c)])"
    by (cases "make_dict_val key flags nl_hint tl_hint row (fst iv) (strip (snd iv))") auto
  have m: "merge_id c = ?h" using c by (rule make_dict_val_merge_id)
  show ?thesis
  proof (cases "map_of d ?h \<noteq> None")
    case True
    then show ?thesis using d' assms(2,3) by simp
  next
    case False
    then have "?h \<notin> fst ` set d" by (simp add: map_of_eq_None_iff)
    then show ?thesis using d' False assms(2,3) m by auto
  qed
qed

lemma loop_keyed:
  assumes "make_new_cards_loop ex key flags nl_hint tl_hint row d ivs = Inr d'"
    and "distinct (map fst d)" and "\<forall>hc\<in>set d. merge_id (snd hc) = fst hc"
  shows "distinct (map fst d') \<and> (\<forall>hc\<in>set d'. merge_id (snd hc) = fst hc)"
  using assms
proof (induction ivs arbitrary: d)
  case Nil
  then show ?case by auto
next
  case (Cons iv ivs)
  from Cons.prems(1) obtain d1 where
    s: "make_new_cards_step ex key flags nl_hint tl_hint row d iv = Inr d1"
    and l: "make_new_cards_loop ex key flags nl_hint tl_hint row d1 ivs = Inr d'"
    by (auto split: sum.splits)
  from step_keyed [OF s Cons.prems(2,3)] Cons.IH [OF l] show ?case by blast
qed

lemma rows_keyed:
  assumes "make_new_cards_rows ex key flags nl_hint tl_hint d rows = Inr d'"
    and "distinct (map fst d)" and "\<forall>hc\<in>set d. merge_id (snd hc) = fst hc"
  shows "distinct (map fst d') \<and> (\<forall>hc\<in>set d'. merge_id (snd hc) = fst hc)"
  using assms
proof (induction rows arbitrary: d)
  case Nil
  then show ?case by auto
next
  case (Cons r rows)
  from Cons.prems(1) obtain d1 where
    s: "make_new_cards ex d key flags nl_hint tl_hint r = Inr d1"
    and l: "make_new_cards_rows ex key flags nl_hint tl_hint d1 rows = Inr d'"
    by (auto split: sum.splits)
  from loop_keyed [OF s [unfolded make_new_cards_def] Cons.prems(2,3)] Cons.IH [OF l]
  show ?case by blast
qed

lemma tl1_flagged_dict_keyed:
  assumes "tl1_flagged_dict key flags nl_abbr tl_abbr df = Inr d"
  shows "distinct (map fst d) \<and> (\<forall>hc\<in>set d. merge_id (snd hc) = fst hc)"
  using rows_keyed [OF assms [unfolded tl1_flagged_dict_def]] by simp

lemma tl1_df_merge_id:
  assumes "tl1_df C st d = Inr (left, st1)"
  shows "map merge_id left = map (\<lambda>hc. merge_id (snd hc)) d"
proof -
  obtain res st' where t: "tag_all C st (map (\<lambda>hc. (999, tl1 (snd hc))) d) = (res, st')"
    by (cases "tag_all C st (map (\<lambda>hc. (999, tl1 (snd hc))) d)") auto
  have len: "length res = length d"
    using length_tag_all [of C st "map (\<lambda>hc. (999, tl1 (snd hc))) d"] t by simp
  have "left = map (\<lambda>(hc, x).
                   \<lparr>merge_id = merge_id (snd hc), nl1 = nl1 (snd hc),
                     part_of_speech = part_of_speech (snd hc), tl_defs = tl_defs (snd hc),
                     answer_lang = answer_lang (snd hc), tl1 = tl1 (snd hc),
                     tl2 = tl2 (snd hc), tl_pronun = tl_pronun (snd hc),
                     tl_audio = audio_output x, tl1_color = concat (markup_output_tl1 x),
                     tl_chapter = annot_chapter x, Tags = annot_tags x\<rparr>)
                   (zip d res)"
    using assms t by (auto simp: tl1_df_def Let_def split: if_splits)
  then have "map merge_id left = map (\<lambda>p. merge_id (snd (fst p))) (zip d res)"
    by (simp add: case_prod_beta)
  also have "\<dots> = map (\<lambda>hc. merge_id (snd hc)) (map fst (zip d res))"
    by simp
  also have "map fst (zip d res) = d" using len by simp
  finally show ?thesis .
qed

lemma left_keys:
  assumes "tl1_flagged_dict key flags nl_abbr tl_abbr df = Inr d"
    and "tl1_df C st d = Inr (left, st1)"
  shows "map merge_id left = map fst d" and "distinct (map merge_id left)"
proof -
  from tl1_flagged_dict_keyed [OF assms(1)]
  have k: "distinct (map fst d)" "\<forall>hc\<in>set d. merge_id (snd hc) = fst hc" by auto
  show "map merge_id left = map fst d"
    unfolding tl1_df_merge_id [OF assms(2)] using k(2) by simp
  then show "distinct (map merge_id left)" using k(1) by simp
qed

lemma set_rows_for_key:
  "set (rows_for_key left right k) =
     {Both l r | l r. l \<in> set left \<and> r \<in> set right \<and> merge_id l = k \<and> o_merge_id r = k}
     \<union> {Left_only l | l. l \<in> set left \<and> merge_id l = k \<and> k \<notin> o_merge_id ` set right}
     \<union> {Right_only r | r. r \<in> set right \<and> o_merge_id r = k \<and> k \<notin> merge_id ` set left}"
proof -
  let ?ls = "filter (\<lambda>l. merge_id l = k) left"
  let ?rs = "filter (\<lambda>r. o_merge_id r = k) right"
  have rs: "?rs = [] \<longleftrightarrow> (\<forall>r\<in>set right. o_merge_id r \<noteq> k)"
    by (auto simp: filter_empty_conv)
  have ls: "?ls = [] \<longleftrightarrow> (\<forall>l\<in>set left. merge_id l \<noteq> k)"
    by (auto simp: filter_empty_conv)
  show ?thesis
  proof (cases "?rs = []")
    case True
    then have "set (rows_for_key left right k) = Left_only ` set ?ls"
      by (simp add: rows_for_key_def)
    moreover from True rs have "\<forall>r\<in>set right. o_merge_id r \<noteq> k" by simp
    ultimately show ?thesis by (auto simp: image_iff; blast?)
  next
    case False
    note nr = False
    show ?thesis
    proof (cases "?ls = []")
      case True
      then have "set (rows_for_key left right k) = Right_only ` set ?rs"
        using nr by (simp add: rows_for_key_def)
      moreover from True ls have "\<forall>l\<in>set left. merge_id l \<noteq> k" by simp
      moreover from nr rs have "\<exists>r\<in>set right. o_merge_id r = k" by simp
      ultimately show ?thesis by (auto simp: image_iff; blast?)
    next
      case False
      then have "set (rows_for_key left right k) =
          (\<Union>l\<in>set ?ls. Both l ` set ?rs)"
        using nr by (simp add: rows_for_key_def)
      moreover from False ls have "\<exists>l\<in>set left. merge_id l = k" by simp
      moreover from nr rs have "\<exists>r\<in>set right. o_merge_id r = k" by simp
      ultimately show ?thesis by (auto simp: image_iff; blast?)
    qed
  qed
qed

lemma set_merge_outer:
  "set (merge_outer left right) =
     {Both l r | l r. l \<in> set left \<and> r \<in> set right \<and> merge_id l = o_merge_id r}
     \<union> {Left_only l | l. l \<in> set left \<and> merge_id l \<notin> o_merge_id ` set right}
     \<union> {Right_only r | r. r \<in> set right \<and> o_merge_id r \<notin> merge_id ` set left}"
proof -
  have "set (merge_outer left right) =
      (\<Union>k\<in>merge_id ` set left \<union> o_merge_id ` set right. set (rows_for_key left right k))"
    by (simp add: merge_outer_def)
  also have "\<dots> =
     {Both l r | l r. l \<in> set left \<and> r \<in> set right \<and> merge_id l = o_merge_id r}
     \<union> {Left_only l | l. l \<in> set left \<and> merge_id l \<notin> o_merge_id ` set right}
     \<union> {Right_only r | r. r \<in> set right \<and> o_merge_id r \<notin> merge_id ` set left}"
    unfolding set_rows_for_key by (auto simp: image_iff; blast?)
  finally show ?thesis .
qed

lemma merged_frame_SomeD:
  assumes "merged_frame C key flags (Some odf) braces nl_abbr tl_abbr st df = Inr (ms, st')"
  shows "\<exists>d left st1 df2. tl1_flagged_dict key flags nl_abbr tl_abbr df = Inr d
     \<and> tl1_df C st d = Inr (left, st1)
     \<and> process_tl_override_df C key braces nl_abbr tl_abbr st1 odf = Inr (df2, st')
     \<and> ms = merge_outer left df2"
  using assms by (auto simp: merged_frame_def split: sum.splits prod.splits)

lemma create_SomeD:
  assumes "create_tl_additional_output C key flags (Some odf) braces nl_abbr tl_abbr
             flag_id_prefix st df = Inr (out, st')"
  shows "\<exists>d left st1 df2. tl1_flagged_dict key flags nl_abbr tl_abbr df = Inr d
     \<and> tl1_df C st d = Inr (left, st1)
     \<and> map merge_id left = map fst d
     \<and> distinct (map merge_id left)
     \<and> process_tl_override_df C key braces nl_abbr tl_abbr st1 odf = Inr (df2, st')
     \<and> out = map (output_row flag_id_prefix (merge_outer left df2)) (merge_outer left df2)"
proof -
  from assms obtain ms where
    m: "merged_frame C key flags (Some odf) braces nl_abbr tl_abbr st df = Inr (ms, st')"
    and o: "out = map (output_row flag_id_prefix ms) ms"
    by (auto simp: create_tl_additional_output_def split: sum.splits prod.splits)
  from merged_frame_SomeD [OF m] obtain d left st1 df2 where
    d: "tl1_flagged_dict key flags nl_abbr tl_abbr df = Inr d"
    and l: "tl1_df C st d = Inr (left, st1)"
    and p: "process_tl_override_df C key braces nl_abbr tl_abbr st1 odf = Inr (df2, st')"
    and ms: "ms = merge_outer left df2"
    by blast
  from left_keys [OF d l] d l p ms o show ?thesis by blast
qed

lemma output_row_Both:
  "note_id (output_row p ms (Both l r)) = Some (id_object (id_has_nan ms) (o_id r))"
  "out_tl_audio (output_row p ms (Both l r)) = Some (o_audio r)"
  "out_chapter (output_row p ms (Both l r)) = Some (o_chapter r)"
  "out_Tags (output_row p ms (Both l r)) = Some (o_Tags r)"
  "has_table (output_row p ms (Both l r)) = ustr ''has_table''"
  "no_table (output_row p ms (Both l r)) = []"
  by (simp_all add: output_row_def np_where_def ustr_def)

lemma output_row_Right_only:
  "note_id (output_row p ms (Right_only r)) = Some (id_object (id_has_nan ms) (o_id r))"
  "out_tl_audio (output_row p ms (Right_only r)) = Some (o_audio r)"
  "out_chapter (output_row p ms (Right_only r)) = Some (o_chapter r)"
  "out_Tags (output_row p ms (Right_only r)) = Some (o_Tags r)"
  "has_table (output_row p ms (Right_only r)) = ustr ''has_table''"
  "no_table (output_row p ms (Right_only r)) = []"
  by (simp_all add: output_row_def np_where_def ustr_def)

lemma output_row_Left_only:
  "note_id (output_row p ms (Left_only l)) = Some (PStr (p @ merge_id l))"
  "out_tl_audio (output_row p ms (Left_only l)) = Some (tl_audio l)"
  "out_chapter (output_row p ms (Left_only l)) = Some (tl_chapter l)"
  "out_Tags (output_row p ms (Left_only l)) = Some (Tags l)"
  "has_table (output_row p ms (Left_only l)) = []"
  "no_table (output_row p ms (Left_only l)) = ustr ''Y''"
  by (simp_all add: output_row_def np_where_def ustr_def)




section \<open>Integers as floats\<close>






lemma merge_outer_cases:
  assumes "m \<in> set (merge_outer left right)"
  shows "(\<exists>l r. m = Both l r \<and> l \<in> set left \<and> r \<in> set right
            \<and> merge_id l = merge_key m \<and> o_merge_id r = merge_key m)
       \<or> (\<exists>l. m = Left_only l \<and> l \<in> set left \<and> merge_id l = merge_key m
            \<and> merge_key m \<notin> o_merge_id ` set right)
       \<or> (\<exists>r. m = Right_only r \<and> r \<in> set right \<and> o_merge_id r = merge_key m
            \<and> merge_key m \<notin> merge_id ` set left)"
  using assms unfolding set_merge_outer by auto

lemmas run_eval = merge_eval synth_eval str_of_nat.simps

section \<open>The number of rows of the merged frame\<close>

lemma length_filter_distinct_key:
  assumes "distinct (map f xs)"
  shows "length (filter (\<lambda>x. f x = k) xs) = (if k \<in> f ` set xs then 1 else 0)"
  using assms by (induction xs) (auto simp: image_iff)

lemma sum_length_filter_keys:
  assumes "finite K" and "g ` set xs \<subseteq> K"
  shows "(\<Sum>k\<in>K. length (filter (\<lambda>x. g x = k) xs)) = length xs"
  using assms(2)
proof (induction xs)
  case Nil
  then show ?case by simp
next
  case (Cons x xs)
  then have x: "g x \<in> K" and xs: "g ` set xs \<subseteq> K" by auto
  have "(\<Sum>k\<in>K. length (filter (\<lambda>y. g y = k) (x # xs)))
      = (\<Sum>k\<in>K. (if g x = k then 1 else 0) + length (filter (\<lambda>y. g y = k) xs))"
    by (rule sum.cong) auto
  also have "\<dots> = (\<Sum>k\<in>K. if g x = k then 1 else 0)
                 + (\<Sum>k\<in>K. length (filter (\<lambda>y. g y = k) xs))"
    by (rule sum.distrib)
  also have "(\<Sum>k\<in>K. if g x = k then 1 else 0) = (1::nat)"
    using assms(1) x by simp
  finally show ?case using Cons.IH [OF xs] by simp
qed

lemma length_rows_for_key:
  assumes "distinct (map merge_id left)"
  shows "length (rows_for_key left right k) =
     (if k \<in> merge_id ` set left - o_merge_id ` set right then 1 else 0)
     + length (filter (\<lambda>r. o_merge_id r = k) right)"
proof -
  let ?ls = "filter (\<lambda>l. merge_id l = k) left"
  let ?rs = "filter (\<lambda>r. o_merge_id r = k) right"
  have ls: "length ?ls = (if k \<in> merge_id ` set left then 1 else 0)"
    using assms by (rule length_filter_distinct_key)
  have rs: "?rs = [] \<longleftrightarrow> k \<notin> o_merge_id ` set right"
    by (auto simp: filter_empty_conv image_iff)
  show ?thesis
  proof (cases "?rs = []")
    case True
    then show ?thesis using ls rs by (simp add: rows_for_key_def)
  next
    case False
    have "length (concat (map (\<lambda>l. map (Both l) ?rs) ?ls)) = length ?ls * length ?rs"
      by (induction ?ls) (simp_all add: length_concat comp_def sum_list_triv)
    then show ?thesis using False ls rs
      by (auto simp: rows_for_key_def Let_def)
  qed
qed

lemma length_merge_outer:
  assumes "distinct (map merge_id left)"
  shows "length (merge_outer left right) =
     card (merge_id ` set left - o_merge_id ` set right) + length right"
proof -
  let ?ks = "sort (remdups (map merge_id left @ map o_merge_id right))"
  let ?K = "merge_id ` set left \<union> o_merge_id ` set right"
  have dk: "distinct ?ks" by simp
  have sk: "set ?ks = ?K" by simp
  have fin: "finite ?K" by simp
  have "length (merge_outer left right) = (\<Sum>k\<leftarrow>?ks. length (rows_for_key left right k))"
    by (simp add: merge_outer_def length_concat comp_def)
  also have "\<dots> = (\<Sum>k\<in>?K. length (rows_for_key left right k))"
    using dk sk by (simp add: sum_list_distinct_conv_sum_set)
  also have "\<dots> = (\<Sum>k\<in>?K. (if k \<in> merge_id ` set left - o_merge_id ` set right then 1 else 0)
                        + length (filter (\<lambda>r. o_merge_id r = k) right))"
    by (simp add: length_rows_for_key [OF assms])
  also have "\<dots> = (\<Sum>k\<in>?K. if k \<in> merge_id ` set left - o_merge_id ` set right then 1 else 0)
                 + (\<Sum>k\<in>?K. length (filter (\<lambda>r. o_merge_id r = k) right))"
    by (rule sum.distrib)
  also have "(\<Sum>k\<in>?K. length (filter (\<lambda>r. o_merge_id r = k) right)) = length right"
    by (rule sum_length_filter_keys [OF fin]) simp
  also have "(\<Sum>k\<in>?K. if k \<in> merge_id ` set left - o_merge_id ` set right then 1 else 0)
      = card (?K \<inter> (merge_id ` set left - o_merge_id ` set right))"
  proof -
    have "{k \<in> merge_id ` set left. k \<notin> o_merge_id ` set right}
        = merge_id ` set left - o_merge_id ` set right"
      by blast
    then show ?thesis using fin by (simp add: sum.If_cases)
  qed
  also have "?K \<inter> (merge_id ` set left - o_merge_id ` set right)
      = merge_id ` set left - o_merge_id ` set right"
    by blast
  finally show ?thesis .
qed

lemma merge_key_set_merge_outer:
  "merge_key ` set (merge_outer left right) = merge_id ` set left \<union> o_merge_id ` set right"
proof (intro set_eqI iffI)
  fix k assume "k \<in> merge_key ` set (merge_outer left right)"
  then obtain m where m: "m \<in> set (merge_outer left right)" and k: "k = merge_key m" by blast
  from merge_outer_cases [OF m]
  consider l where "l \<in> set left" "merge_id l = merge_key m"
    | r where "r \<in> set right" "o_merge_id r = merge_key m"
    by blast
  then show "k \<in> merge_id ` set left \<union> o_merge_id ` set right"
  proof cases
    case 1
    have "merge_id l \<in> merge_id ` set left" using 1(1) by (rule imageI)
    then show ?thesis unfolding k 1(2) by simp
  next
    case 2
    have "o_merge_id r \<in> o_merge_id ` set right" using 2(1) by (rule imageI)
    then show ?thesis unfolding k 2(2) by simp
  qed
next
  fix k assume k: "k \<in> merge_id ` set left \<union> o_merge_id ` set right"
  show "k \<in> merge_key ` set (merge_outer left right)"
  proof (cases "k \<in> o_merge_id ` set right")
    case True
    then obtain r where r: "r \<in> set right" "o_merge_id r = k" by blast
    show ?thesis
    proof (cases "k \<in> merge_id ` set left")
      case True
      then obtain l where l: "l \<in> set left" "merge_id l = k" by blast
      then have "merge_id l = o_merge_id r" using r by simp
      then have "Both l r \<in> set (merge_outer left right)"
        using l r unfolding set_merge_outer by blast
      then have "merge_key (Both l r) \<in> merge_key ` set (merge_outer left right)"
        by (rule imageI)
      then show ?thesis using l by simp
    next
      case False
      then have "o_merge_id r \<notin> merge_id ` set left" using r by simp
      then have "Right_only r \<in> set (merge_outer left right)"
        using r unfolding set_merge_outer by blast
      then have "merge_key (Right_only r) \<in> merge_key ` set (merge_outer left right)"
        by (rule imageI)
      then show ?thesis using r by simp
    qed
  next
    case False
    with k obtain l where l: "l \<in> set left" "merge_id l = k" by blast
    then have "merge_id l \<notin> o_merge_id ` set right" using False by simp
    then have "Left_only l \<in> set (merge_outer left right)"
      using l unfolding set_merge_outer by blast
    then have "merge_key (Left_only l) \<in> merge_key ` set (merge_outer left right)"
      by (rule imageI)
    then show ?thesis using l by simp
  qed
qed

lemma card_union_keys:
  "card (A \<union> set xs) = card (A - set xs) + card (set xs)" if "finite A"
proof -
  have "A \<union> set xs = (A - set xs) \<union> set xs" by blast
  moreover have "card ((A - set xs) \<union> set xs) = card (A - set xs) + card (set xs)"
    using that by (intro card_Un_disjoint) auto
  ultimately show ?thesis by simp
qed

text \<open>
  C1. The claim: the merged output has exactly one record per distinct headword of either
  source, and its record count is the cardinality of the union of the two headword sets.
  The code: in a run that returns, the headwords of the merged frame are those of the
  flagged cards and of the override rows, and the frame has one row for every override
  row and one row for every flagged card whose headword no override row has. The count is
  the cardinality of the union, and no headword is repeated, exactly when no two override
  rows have the same headword; when two have, the count is larger and a headword is
  repeated.
\<close>

theorem C1_merged_row_count:
  assumes "create_tl_additional_output C key flags (Some odf) braces nl_abbr tl_abbr
             flag_id_prefix st df = Inr (out, st')"
  shows "\<exists>d left st1 df2 ms.
       tl1_flagged_dict key flags nl_abbr tl_abbr df = Inr d
     \<and> tl1_df C st d = Inr (left, st1)
     \<and> process_tl_override_df C key braces nl_abbr tl_abbr st1 odf = Inr (df2, st')
     \<and> ms = merge_outer left df2
     \<and> out = map (output_row flag_id_prefix ms) ms
     \<and> merge_key ` set ms = fst ` set d \<union> o_merge_id ` set df2
     \<and> length out = card (fst ` set d - o_merge_id ` set df2) + length df2
     \<and> (distinct (map o_merge_id df2) \<longrightarrow>
           length out = card (fst ` set d \<union> o_merge_id ` set df2)
           \<and> distinct (map merge_key ms))
     \<and> (\<not> distinct (map o_merge_id df2) \<longrightarrow>
           card (fst ` set d \<union> o_merge_id ` set df2) < length out
           \<and> \<not> distinct (map merge_key ms))"
proof -
  from create_SomeD [OF assms] obtain d left st1 df2 where
    d: "tl1_flagged_dict key flags nl_abbr tl_abbr df = Inr d"
    and l: "tl1_df C st d = Inr (left, st1)"
    and k: "map merge_id left = map fst d"
    and dl: "distinct (map merge_id left)"
    and p: "process_tl_override_df C key braces nl_abbr tl_abbr st1 odf = Inr (df2, st')"
    and o: "out = map (output_row flag_id_prefix (merge_outer left df2)) (merge_outer left df2)"
    by blast
  let ?ms = "merge_outer left df2"
  let ?A = "fst ` set d"
  let ?B = "o_merge_id ` set df2"
  have keys: "?A = merge_id ` set left"
    using k by (metis list.set_map)
  have s: "merge_key ` set ?ms = ?A \<union> ?B"
    unfolding keys by (rule merge_key_set_merge_outer)
  have len: "length out = card (?A - ?B) + length df2"
    unfolding o keys using length_merge_outer [OF dl, of df2] by simp
  have un: "card (?A \<union> ?B) = card (?A - ?B) + card ?B"
    using card_union_keys [of ?A "map o_merge_id df2"] by simp
  have lm: "length (map merge_key ?ms) = length out"
    unfolding o by simp
  have sm: "card (set (map merge_key ?ms)) = card (?A \<union> ?B)"
    using s by simp
  have a: "distinct (map o_merge_id df2) \<longrightarrow>
           length out = card (?A \<union> ?B) \<and> distinct (map merge_key ?ms)"
  proof
    assume "distinct (map o_merge_id df2)"
    then have "card ?B = length df2"
      using distinct_card [of "map o_merge_id df2"] by simp
    then have e: "length out = card (?A \<union> ?B)" using len un by simp
    then have "card (set (map merge_key ?ms)) = length (map merge_key ?ms)"
      using sm lm by simp
    then have "distinct (map merge_key ?ms)" by (rule card_distinct)
    with e show "length out = card (?A \<union> ?B) \<and> distinct (map merge_key ?ms)" by simp
  qed
  have b: "\<not> distinct (map o_merge_id df2) \<longrightarrow>
           card (?A \<union> ?B) < length out \<and> \<not> distinct (map merge_key ?ms)"
  proof
    assume nd: "\<not> distinct (map o_merge_id df2)"
    have "card (set (map o_merge_id df2)) \<le> length (map o_merge_id df2)"
      by (rule card_length)
    moreover have "card (set (map o_merge_id df2)) \<noteq> length (map o_merge_id df2)"
      using nd card_distinct by blast
    ultimately have "card ?B < length df2" by simp
    then have e: "card (?A \<union> ?B) < length out" using len un by simp
    then have "card (set (map merge_key ?ms)) \<noteq> length (map merge_key ?ms)"
      using sm lm by simp
    then have "\<not> distinct (map merge_key ?ms)" using distinct_card by blast
    with e show "card (?A \<union> ?B) < length out \<and> \<not> distinct (map merge_key ?ms)" by simp
  qed
  show ?thesis
    apply (rule exI [of _ d], rule exI [of _ left], rule exI [of _ st1])
    apply (rule exI [of _ df2], rule exI [of _ ?ms])
    using d l p o s len a b by (intro conjI) (assumption | rule refl)+
qed

theorem C1_merged_row_count_witness:
  "\<exists>d left st1 df2 ms out.
      create_tl_additional_output ex_collab ex_key ex_flags
        (Some (ex_ov_df [ex_ov_row (sid ''1'') (ustr ''Haus''),
                         ex_ov_row (sid ''2'') (ustr ''Haus'')]))
        None (ustr ''N'') (ustr ''T'') (ustr ''HW_'') 0
        [ex_row [ustr ''Haus'' @ [176]] []] = Inr (out, 3)
    \<and> tl1_flagged_dict ex_key ex_flags (ustr ''N'') (ustr ''T'')
        [ex_row [ustr ''Haus'' @ [176]] []] = Inr d
    \<and> tl1_df ex_collab 0 d = Inr (left, st1)
    \<and> process_tl_override_df ex_collab ex_key None (ustr ''N'') (ustr ''T'') st1
        (ex_ov_df [ex_ov_row (sid ''1'') (ustr ''Haus''),
                   ex_ov_row (sid ''2'') (ustr ''Haus'')]) = Inr (df2, 3)
    \<and> ms = merge_outer left df2 \<and> out = map (output_row (ustr ''HW_'') ms) ms
    \<and> map fst d = [ustr ''Haus'']
    \<and> map o_merge_id df2 = [ustr ''Haus'', ustr ''Haus'']
    \<and> map o_id df2 = [sid ''1'', sid ''2'']
    \<and> fst ` set d \<union> o_merge_id ` set df2 = {ustr ''Haus''}
    \<and> card (fst ` set d \<union> o_merge_id ` set df2) = 1
    \<and> length out = 2
    \<and> map merge_key ms = [ustr ''Haus'', ustr ''Haus'']
    \<and> map note_id out = [Some (PStr (ustr ''1'')), Some (PStr (ustr ''2''))]"
proof -
  let ?df = "[ex_row [ustr ''Haus'' @ [176]] []]"
  let ?odf = "ex_ov_df [ex_ov_row (sid ''1'') (ustr ''Haus''),
                        ex_ov_row (sid ''2'') (ustr ''Haus'')]"
  have "\<exists>out. create_tl_additional_output ex_collab ex_key ex_flags (Some ?odf)
        None (ustr ''N'') (ustr ''T'') (ustr ''HW_'') 0 ?df = Inr (out, 3)"
    by (simp add: run_eval)
  then obtain out where
    ev: "create_tl_additional_output ex_collab ex_key ex_flags (Some ?odf)
        None (ustr ''N'') (ustr ''T'') (ustr ''HW_'') 0 ?df = Inr (out, 3)"
    by blast
  from C1_merged_row_count [OF ev] obtain d left st1 df2 ms where
    d: "tl1_flagged_dict ex_key ex_flags (ustr ''N'') (ustr ''T'') ?df = Inr d"
    and l: "tl1_df ex_collab 0 d = Inr (left, st1)"
    and p: "process_tl_override_df ex_collab ex_key None (ustr ''N'') (ustr ''T'') st1 ?odf
              = Inr (df2, 3)"
    and ms: "ms = merge_outer left df2"
    and o: "out = map (output_row (ustr ''HW_'') ms) ms"
    and len: "length out = card (fst ` set d - o_merge_id ` set df2) + length df2"
    by (elim exE conjE) (rule that; assumption)
  have d_eq: "d = projr (tl1_flagged_dict ex_key ex_flags (ustr ''N'') (ustr ''T'') ?df)"
    using d by simp
  have l_eq: "left = fst (projr (tl1_df ex_collab 0 d))"
    and st1_eq: "st1 = snd (projr (tl1_df ex_collab 0 d))"
    using l by simp_all
  have p_eq: "df2 = fst (projr (process_tl_override_df ex_collab ex_key None (ustr ''N'')
                (ustr ''T'') st1 ?odf))"
    using p by simp
  have f1: "map fst d = [ustr ''Haus'']"
    unfolding d_eq by (simp add: run_eval)
  have f2: "map o_merge_id df2 = [ustr ''Haus'', ustr ''Haus'']"
    unfolding p_eq st1_eq d_eq by (simp add: run_eval)
  have f3: "map o_id df2 = [sid ''1'', sid ''2'']"
    unfolding p_eq st1_eq d_eq by (simp add: run_eval)
  have sd: "fst ` set d = {ustr ''Haus''}"
  proof -
    have "fst ` set d = set (map fst d)" by simp
    also have "\<dots> = {ustr ''Haus''}" unfolding f1 by simp
    finally show ?thesis .
  qed
  have so: "o_merge_id ` set df2 = {ustr ''Haus''}"
  proof -
    have "o_merge_id ` set df2 = set (map o_merge_id df2)" by simp
    also have "\<dots> = {ustr ''Haus''}" unfolding f2 by simp
    finally show ?thesis .
  qed
  have f4: "fst ` set d \<union> o_merge_id ` set df2 = {ustr ''Haus''}"
    unfolding sd so by simp
  have f5: "card (fst ` set d \<union> o_merge_id ` set df2) = 1"
    unfolding f4 by simp
  have "length df2 = length (map o_merge_id df2)" by simp
  also have "\<dots> = 2" unfolding f2 by simp
  finally have l2: "length df2 = 2" .
  have "fst ` set d - o_merge_id ` set df2 = {}" unfolding sd so by simp
  then have f6: "length out = 2" using len l2 by simp
  have f7: "map merge_key ms = [ustr ''Haus'', ustr ''Haus'']"
    unfolding ms p_eq l_eq st1_eq d_eq by (simp add: run_eval)
  have f8: "map note_id out = [Some (PStr (ustr ''1'')), Some (PStr (ustr ''2''))]"
    unfolding o ms p_eq l_eq st1_eq d_eq by (simp add: run_eval)
  show ?thesis
    apply (rule exI [of _ d], rule exI [of _ left], rule exI [of _ st1])
    apply (rule exI [of _ df2], rule exI [of _ ms], rule exI [of _ out])
    using ev d l p ms o f1 f2 f3 f4 f5 f6 f7 f8 by (intro conjI) assumption+
qed




text \<open>
  C10. In a run that returns, every row of the merged frame whose headword is not a key
  of the flagged-card dictionary comes from an override row \<open>r\<close> alone, and its output row
  has the entry for \<open>r\<close> of the column \<open>id\<close> as its identifier, \<open>has_table = "has_table"\<close>
  and \<open>no_table = ""\<close>, as a matched row has. For every row of the merged frame, the pair of markers is
  \<open>("has_table", "")\<close> exactly when the headword of the row is a headword of the override
  table: the markers record membership in the override table. Every override row whose
  headword has no flagged card has its row.
\<close>

theorem C10_override_only_marked_has_table:
  assumes "create_tl_additional_output C key flags (Some odf) braces nl_abbr tl_abbr
             flag_id_prefix st df = Inr (out, st')"
  shows "\<exists>d left st1 df2 ms.
       tl1_flagged_dict key flags nl_abbr tl_abbr df = Inr d
     \<and> tl1_df C st d = Inr (left, st1)
     \<and> process_tl_override_df C key braces nl_abbr tl_abbr st1 odf = Inr (df2, st')
     \<and> ms = merge_outer left df2
     \<and> out = map (output_row flag_id_prefix ms) ms
     \<and> (\<forall>m\<in>set ms. merge_key m \<notin> fst ` set d \<longrightarrow>
           (\<exists>r\<in>set df2. m = Right_only r \<and> o_merge_id r = merge_key m
              \<and> note_id (output_row flag_id_prefix ms m) =
                  Some (id_object (id_has_nan ms) (o_id r))
              \<and> has_table (output_row flag_id_prefix ms m) = ustr ''has_table''
              \<and> no_table (output_row flag_id_prefix ms m) = []))
     \<and> (\<forall>m\<in>set ms.
           (has_table (output_row flag_id_prefix ms m) = ustr ''has_table''
              \<and> no_table (output_row flag_id_prefix ms m) = [])
           = (merge_key m \<in> o_merge_id ` set df2))
     \<and> (\<forall>r\<in>set df2. o_merge_id r \<notin> fst ` set d \<longrightarrow> Right_only r \<in> set ms)"
proof -
  from create_SomeD [OF assms] obtain d left st1 df2 where
    d: "tl1_flagged_dict key flags nl_abbr tl_abbr df = Inr d"
    and l: "tl1_df C st d = Inr (left, st1)"
    and k: "map merge_id left = map fst d"
    and p: "process_tl_override_df C key braces nl_abbr tl_abbr st1 odf = Inr (df2, st')"
    and o: "out = map (output_row flag_id_prefix (merge_outer left df2)) (merge_outer left df2)"
    by blast
  let ?ms = "merge_outer left df2"
  let ?R = "\<lambda>m. \<exists>r\<in>set df2. m = Right_only r \<and> o_merge_id r = merge_key m
              \<and> note_id (output_row flag_id_prefix ?ms m) =
                  Some (id_object (id_has_nan ?ms) (o_id r))
              \<and> has_table (output_row flag_id_prefix ?ms m) = ustr ''has_table''
              \<and> no_table (output_row flag_id_prefix ?ms m) = []"
  have keys: "fst ` set d = merge_id ` set left"
    using k by (metis list.set_map)
  have ne: "ustr ''has_table'' \<noteq> []" by (simp add: ustr_def)
  have cases: "(\<exists>l r. m = Both l r \<and> l \<in> set left \<and> r \<in> set df2
            \<and> merge_id l = merge_key m \<and> o_merge_id r = merge_key m)
       \<or> (\<exists>l. m = Left_only l \<and> l \<in> set left \<and> merge_id l = merge_key m
            \<and> merge_key m \<notin> o_merge_id ` set df2)
       \<or> (\<exists>r. m = Right_only r \<and> r \<in> set df2 \<and> o_merge_id r = merge_key m
            \<and> merge_key m \<notin> merge_id ` set left)" if "m \<in> set ?ms" for m
    using that by (rule merge_outer_cases)
  have a: "\<forall>m\<in>set ?ms. merge_key m \<notin> fst ` set d \<longrightarrow> ?R m"
  proof (intro ballI impI)
    fix m assume m: "m \<in> set ?ms" and n: "merge_key m \<notin> fst ` set d"
    from n keys have n': "\<forall>l\<in>set left. merge_id l \<noteq> merge_key m" by (metis imageI)
    from cases [OF m] n' obtain r where
      r: "m = Right_only r" "r \<in> set df2" "o_merge_id r = merge_key m"
      by blast
    have "m = Right_only r \<and> o_merge_id r = merge_key m
              \<and> note_id (output_row flag_id_prefix ?ms m) =
                  Some (id_object (id_has_nan ?ms) (o_id r))
              \<and> has_table (output_row flag_id_prefix ?ms m) = ustr ''has_table''
              \<and> no_table (output_row flag_id_prefix ?ms m) = []"
      using r(3) unfolding r(1) output_row_Right_only by simp
    then show "?R m" using r(2) by (intro bexI)
  qed
  have b: "\<forall>m\<in>set ?ms.
           (has_table (output_row flag_id_prefix ?ms m) = ustr ''has_table''
              \<and> no_table (output_row flag_id_prefix ?ms m) = [])
           = (merge_key m \<in> o_merge_id ` set df2)"
  proof
    fix m assume m: "m \<in> set ?ms"
    from cases [OF m]
    consider (both) l r where "m = Both l r" "r \<in> set df2" "o_merge_id r = merge_key m"
      | (left) l where "m = Left_only l" "merge_key m \<notin> o_merge_id ` set df2"
      | (right) r where "m = Right_only r" "r \<in> set df2" "o_merge_id r = merge_key m"
      by blast
    then show "(has_table (output_row flag_id_prefix ?ms m) = ustr ''has_table''
              \<and> no_table (output_row flag_id_prefix ?ms m) = [])
           = (merge_key m \<in> o_merge_id ` set df2)"
    proof cases
      case both
      have "merge_key m \<in> o_merge_id ` set df2" using both(2,3) by (metis imageI)
      then show ?thesis unfolding both(1) output_row_Both by simp
    next
      case left
      have "has_table (output_row flag_id_prefix ?ms m) \<noteq> ustr ''has_table''"
        unfolding left(1) output_row_Left_only using ne by simp
      then show ?thesis using left(2) by simp
    next
      case right
      have "merge_key m \<in> o_merge_id ` set df2" using right(2,3) by (metis imageI)
      then show ?thesis unfolding right(1) output_row_Right_only by simp
    qed
  qed
  have c: "\<forall>r\<in>set df2. o_merge_id r \<notin> fst ` set d \<longrightarrow> Right_only r \<in> set ?ms"
    unfolding set_merge_outer keys by blast
  show ?thesis
    apply (rule exI [of _ d], rule exI [of _ left], rule exI [of _ st1])
    apply (rule exI [of _ df2], rule exI [of _ ?ms])
    using d l p o a b c by (intro conjI) (assumption | rule refl)+
qed

theorem C10_override_only_marked_has_table_witness:
  "\<exists>d left st1 df2 ms out.
      create_tl_additional_output ex_collab ex_key ex_flags
        (Some (ex_ov_df [ex_ov_row (sid ''8'') (ustr ''Tor'')]))
        None (ustr ''N'') (ustr ''T'') (ustr ''HW_'') 0
        [ex_row [ustr ''Haus'' @ [176]] []] = Inr (out, 2)
    \<and> tl1_flagged_dict ex_key ex_flags (ustr ''N'') (ustr ''T'')
        [ex_row [ustr ''Haus'' @ [176]] []] = Inr d
    \<and> tl1_df ex_collab 0 d = Inr (left, st1)
    \<and> process_tl_override_df ex_collab ex_key None (ustr ''N'') (ustr ''T'') st1
        (ex_ov_df [ex_ov_row (sid ''8'') (ustr ''Tor'')]) = Inr (df2, 2)
    \<and> ms = merge_outer left df2 \<and> out = map (output_row (ustr ''HW_'') ms) ms
    \<and> map fst d = [ustr ''Haus'']
    \<and> map o_merge_id df2 = [ustr ''Tor'']
    \<and> map merge_key ms = [ustr ''Haus'', ustr ''Tor'']
    \<and> map (\<lambda>x. (note_id x, out_nl1 x, has_table x, no_table x)) out =
        [(Some (PStr (ustr ''HW_Haus'')), Some (ustr ''house''), [], ustr ''Y''),
         (Some (PStr (ustr ''8'')), None, ustr ''has_table'', [])]"
proof -
  let ?df = "[ex_row [ustr ''Haus'' @ [176]] []]"
  let ?odf = "ex_ov_df [ex_ov_row (sid ''8'') (ustr ''Tor'')]"
  have "\<exists>out. create_tl_additional_output ex_collab ex_key ex_flags (Some ?odf)
        None (ustr ''N'') (ustr ''T'') (ustr ''HW_'') 0 ?df = Inr (out, 2)"
    by (simp add: run_eval)
  then obtain out where
    ev: "create_tl_additional_output ex_collab ex_key ex_flags (Some ?odf)
        None (ustr ''N'') (ustr ''T'') (ustr ''HW_'') 0 ?df = Inr (out, 2)"
    by blast
  from C10_override_only_marked_has_table [OF ev] obtain d left st1 df2 ms where
    d: "tl1_flagged_dict ex_key ex_flags (ustr ''N'') (ustr ''T'') ?df = Inr d"
    and l: "tl1_df ex_collab 0 d = Inr (left, st1)"
    and p: "process_tl_override_df ex_collab ex_key None (ustr ''N'') (ustr ''T'') st1 ?odf
              = Inr (df2, 2)"
    and ms: "ms = merge_outer left df2"
    and o: "out = map (output_row (ustr ''HW_'') ms) ms"
    by (elim exE conjE) (rule that; assumption)
  have d_eq: "d = projr (tl1_flagged_dict ex_key ex_flags (ustr ''N'') (ustr ''T'') ?df)"
    using d by simp
  have l_eq: "left = fst (projr (tl1_df ex_collab 0 d))"
    and st1_eq: "st1 = snd (projr (tl1_df ex_collab 0 d))"
    using l by simp_all
  have p_eq: "df2 = fst (projr (process_tl_override_df ex_collab ex_key None (ustr ''N'')
                (ustr ''T'') st1 ?odf))"
    using p by simp
  have f1: "map fst d = [ustr ''Haus'']"
    unfolding d_eq by (simp add: run_eval)
  have f2: "map o_merge_id df2 = [ustr ''Tor'']"
    unfolding p_eq st1_eq d_eq by (simp add: run_eval)
  have f3: "map merge_key ms = [ustr ''Haus'', ustr ''Tor'']"
    unfolding ms p_eq l_eq st1_eq d_eq by (simp add: run_eval)
  have f4: "map (\<lambda>x. (note_id x, out_nl1 x, has_table x, no_table x)) out =
        [(Some (PStr (ustr ''HW_Haus'')), Some (ustr ''house''), [], ustr ''Y''),
         (Some (PStr (ustr ''8'')), None, ustr ''has_table'', [])]"
    unfolding o ms p_eq l_eq st1_eq d_eq by (simp add: run_eval)
  show ?thesis
    apply (rule exI [of _ d], rule exI [of _ left], rule exI [of _ st1])
    apply (rule exI [of _ df2], rule exI [of _ ms], rule exI [of _ out])
    using ev d l p ms o f1 f2 f3 f4 by (intro conjI) assumption+
qed

end
